theory Spec2Isabelle
  imports Complex_Main
begin

section \<open>Strings\<close>

text \<open>
  A Python \<open>str\<close> is a sequence of Unicode code points, so a string is a list of code
  points (natural numbers), not a list of bytes: \<open>\<ouml>\<close> is the single code point 246.
  \<open>str\<close> reads an ASCII literal as such a string.
\<close>

type_synonym codepoint = nat
type_synonym pystr = "codepoint list"

definition str :: "string \<Rightarrow> pystr" where
  "str s = map of_char s"

text \<open>
  The characters that \<open>\s\<close> matches in a \<open>str\<close> pattern and that \<open>str.strip()\<close> removes:
  U+0009..U+000D, U+001C..U+0020, U+0085, U+00A0, U+1680, U+2000..U+200A, U+2028, U+2029,
  U+202F, U+205F, U+3000.
\<close>

definition is_space :: "codepoint \<Rightarrow> bool" where
  "is_space c \<longleftrightarrow>
     (9 \<le> c \<and> c \<le> 13) \<or> (28 \<le> c \<and> c \<le> 32) \<or> c = 133 \<or> c = 160 \<or> c = 5760 \<or>
     (8192 \<le> c \<and> c \<le> 8202) \<or> c = 8232 \<or> c = 8233 \<or> c = 8239 \<or> c = 8287 \<or> c = 12288"

text \<open>The character class \<open>[a-zA-Z0-9]\<close> of the second regular expression.\<close>

definition is_alnum :: "codepoint \<Rightarrow> bool" where
  "is_alnum c \<longleftrightarrow> (97 \<le> c \<and> c \<le> 122) \<or> (65 \<le> c \<and> c \<le> 90) \<or> (48 \<le> c \<and> c \<le> 57)"

text \<open>
  \<open>str.lower()\<close>, one code point at a time. \<open>normalize_item\<close> calls it only on what the
  filter \<open>[^a-zA-Z0-9]\<close> has left, where lowering is the ASCII one: \<open>A..Z\<close> move by 32.
\<close>

definition lower_cp :: "codepoint \<Rightarrow> codepoint" where
  "lower_cp c = (if 65 \<le> c \<and> c \<le> 90 then c + 32 else c)"

definition lower :: "pystr \<Rightarrow> pystr" where
  "lower s = map lower_cp s"

text \<open>\<open>str.strip()\<close>: leading and trailing whitespace removed.\<close>

definition strip :: "pystr \<Rightarrow> pystr" where
  "strip s = rev (dropWhile is_space (rev (dropWhile is_space s)))"


section \<open>Normalizer (session.py)\<close>

text \<open>
  \<open>re.sub(r"\s+", "", item)\<close> deletes every whitespace character,
  \<open>re.sub(r"[^a-zA-Z0-9]", "", ...)\<close> deletes every character outside the class.
\<close>

definition normalize_item :: "pystr \<Rightarrow> pystr" where
  "normalize_item item =
     (let normalized = filter (\<lambda>c. \<not> is_space c) item;
          normalized = filter is_alnum normalized
      in lower normalized)"

definition items_equal :: "pystr \<Rightarrow> pystr \<Rightarrow> bool" where
  "items_equal item1 item2 \<longleftrightarrow> normalize_item item1 = normalize_item item2"

text \<open>The loop of \<open>is_duplicate_item\<close>, returning at the first match.\<close>

fun duplicate_loop :: "pystr \<Rightarrow> pystr list \<Rightarrow> bool" where
  "duplicate_loop new_normalized [] = False"
| "duplicate_loop new_normalized (item # rest) =
     (if normalize_item item = new_normalized then True
      else duplicate_loop new_normalized rest)"

definition is_duplicate_item :: "pystr \<Rightarrow> pystr list \<Rightarrow> bool" where
  "is_duplicate_item new_item existing_items =
     (let new_normalized = normalize_item new_item
      in if new_normalized = [] then True
         else duplicate_loop new_normalized existing_items)"


section \<open>The store (database.py)\<close>

text \<open>
  The two tables, each a list of rows in the order a \<open>SELECT\<close> returns them. A list
  column (stored as JSON text) is the list itself. A timestamp is a real number of
  seconds; every operation that reads \<open>time.time()\<close> takes the instant \<open>now\<close> it runs at.
\<close>

datatype phase = ADDING | ACCEPTING | RESULT

record session_row =
  session_id :: pystr
  creator_id :: pystr
  phase :: phase
  created_at :: real
  last_activity :: real
  excluded_items :: "pystr list"
  restart_votes :: "pystr list"

record member_row =
  of_session :: pystr
  member_id :: pystr
  items :: "pystr list"
  is_ready :: bool
  accepted_items :: "pystr list"
  is_observer :: bool
  last_seen :: real

record database =
  sessions :: "session_row list"
  members :: "member_row list"

text \<open>\<open>UPDATE sessions SET ... WHERE session_id = ?\<close> and \<open>UPDATE members SET ... WHERE ...\<close>.\<close>

definition update_sessions ::
  "pystr \<Rightarrow> (session_row \<Rightarrow> session_row) \<Rightarrow> database \<Rightarrow> database" where
  "update_sessions sid f db =
     db\<lparr>sessions := map (\<lambda>r. if session_id r = sid then f r else r) (sessions db)\<rparr>"

definition update_members ::
  "(member_row \<Rightarrow> bool) \<Rightarrow> (member_row \<Rightarrow> member_row) \<Rightarrow> database \<Rightarrow> database" where
  "update_members sel f db =
     db\<lparr>members := map (\<lambda>m. if sel m then f m else m) (members db)\<rparr>"

definition get_session :: "database \<Rightarrow> pystr \<Rightarrow> session_row option" where
  "get_session db sid = find (\<lambda>r. session_id r = sid) (sessions db)"

definition set_session_phase :: "database \<Rightarrow> pystr \<Rightarrow> phase \<Rightarrow> real \<Rightarrow> database" where
  "set_session_phase db sid ph now =
     update_sessions sid (\<lambda>r. r\<lparr>phase := ph, last_activity := now\<rparr>) db"

text \<open>
  The rows that \<open>create_session\<close> and \<open>add_member\<close> insert, with the defaults of the
  schema. An insert that breaks \<open>PRIMARY KEY\<close> or \<open>UNIQUE(session_id, member_id)\<close> raises
  \<open>IntegrityError\<close>: the transaction is rolled back and the result is \<open>False\<close>.
\<close>

definition new_session :: "pystr \<Rightarrow> pystr \<Rightarrow> real \<Rightarrow> session_row" where
  "new_session sid creator now =
     \<lparr>session_id = sid, creator_id = creator, phase = ADDING, created_at = now,
      last_activity = now, excluded_items = [], restart_votes = []\<rparr>"

definition new_member :: "pystr \<Rightarrow> pystr \<Rightarrow> bool \<Rightarrow> real \<Rightarrow> member_row" where
  "new_member sid mid observer now =
     \<lparr>of_session = sid, member_id = mid, items = [], is_ready = False,
      accepted_items = [], is_observer = observer, last_seen = now\<rparr>"

definition create_session :: "database \<Rightarrow> pystr \<Rightarrow> pystr \<Rightarrow> real \<Rightarrow> bool \<times> database" where
  "create_session db sid creator now =
     (if list_ex (\<lambda>r. session_id r = sid) (sessions db)
         \<or> list_ex (\<lambda>m. of_session m = sid \<and> member_id m = creator) (members db)
      then (False, db)
      else (True, \<lparr>sessions = sessions db @ [new_session sid creator now],
                   members = members db @ [new_member sid creator False now]\<rparr>))"

definition add_member :: "database \<Rightarrow> pystr \<Rightarrow> pystr \<Rightarrow> bool \<Rightarrow> real \<Rightarrow> bool \<times> database" where
  "add_member db sid mid observer now =
     (if list_ex (\<lambda>m. of_session m = sid \<and> member_id m = mid) (members db)
      then (False, db)
      else (True, update_sessions sid (\<lambda>r. r\<lparr>last_activity := now\<rparr>)
                    (db\<lparr>members := members db @ [new_member sid mid observer now]\<rparr>)))"

definition get_member :: "database \<Rightarrow> pystr \<Rightarrow> pystr \<Rightarrow> member_row option" where
  "get_member db sid mid = find (\<lambda>m. of_session m = sid \<and> member_id m = mid) (members db)"

definition get_all_members :: "database \<Rightarrow> pystr \<Rightarrow> member_row list" where
  "get_all_members db sid = filter (\<lambda>m. of_session m = sid) (members db)"

definition get_active_members :: "database \<Rightarrow> pystr \<Rightarrow> member_row list" where
  "get_active_members db sid = filter (\<lambda>m. \<not> is_observer m) (get_all_members db sid)"

definition update_member_items ::
  "database \<Rightarrow> pystr \<Rightarrow> pystr \<Rightarrow> pystr list \<Rightarrow> real \<Rightarrow> database" where
  "update_member_items db sid mid its now =
     update_sessions sid (\<lambda>r. r\<lparr>last_activity := now\<rparr>)
       (update_members (\<lambda>m. of_session m = sid \<and> member_id m = mid)
          (\<lambda>m. m\<lparr>items := its, last_seen := now\<rparr>) db)"

definition set_member_ready :: "database \<Rightarrow> pystr \<Rightarrow> pystr \<Rightarrow> bool \<Rightarrow> real \<Rightarrow> database" where
  "set_member_ready db sid mid flag now =
     update_sessions sid (\<lambda>r. r\<lparr>last_activity := now\<rparr>)
       (update_members (\<lambda>m. of_session m = sid \<and> member_id m = mid)
          (\<lambda>m. m\<lparr>is_ready := flag, last_seen := now\<rparr>) db)"

definition update_member_accepted_items ::
  "database \<Rightarrow> pystr \<Rightarrow> pystr \<Rightarrow> pystr list \<Rightarrow> real \<Rightarrow> database" where
  "update_member_accepted_items db sid mid accepted now =
     update_sessions sid (\<lambda>r. r\<lparr>last_activity := now\<rparr>)
       (update_members (\<lambda>m. of_session m = sid \<and> member_id m = mid)
          (\<lambda>m. m\<lparr>accepted_items := accepted, last_seen := now\<rparr>) db)"

definition reset_all_ready_status :: "database \<Rightarrow> pystr \<Rightarrow> database" where
  "reset_all_ready_status db sid =
     update_members (\<lambda>m. of_session m = sid) (\<lambda>m. m\<lparr>is_ready := False\<rparr>) db"

definition reset_all_accepted_items :: "database \<Rightarrow> pystr \<Rightarrow> database" where
  "reset_all_accepted_items db sid =
     update_members (\<lambda>m. of_session m = sid) (\<lambda>m. m\<lparr>accepted_items := []\<rparr>) db"

definition clear_all_items :: "database \<Rightarrow> pystr \<Rightarrow> database" where
  "clear_all_items db sid =
     update_members (\<lambda>m. of_session m = sid) (\<lambda>m. m\<lparr>items := []\<rparr>) db"

definition promote_observers :: "database \<Rightarrow> pystr \<Rightarrow> database" where
  "promote_observers db sid =
     update_members (\<lambda>m. of_session m = sid) (\<lambda>m. m\<lparr>is_observer := False\<rparr>) db"

definition get_excluded_items :: "database \<Rightarrow> pystr \<Rightarrow> pystr list" where
  "get_excluded_items db sid =
     (case get_session db sid of Some row \<Rightarrow> excluded_items row | None \<Rightarrow> [])"

definition set_excluded_items :: "database \<Rightarrow> pystr \<Rightarrow> pystr list \<Rightarrow> database" where
  "set_excluded_items db sid excluded =
     update_sessions sid (\<lambda>r. r\<lparr>excluded_items := excluded\<rparr>) db"

definition clear_excluded_items :: "database \<Rightarrow> pystr \<Rightarrow> database" where
  "clear_excluded_items db sid = set_excluded_items db sid []"

definition get_restart_votes :: "database \<Rightarrow> pystr \<Rightarrow> pystr list" where
  "get_restart_votes db sid =
     (case get_session db sid of Some row \<Rightarrow> restart_votes row | None \<Rightarrow> [])"

definition add_restart_vote :: "database \<Rightarrow> pystr \<Rightarrow> pystr \<Rightarrow> database" where
  "add_restart_vote db sid mid =
     (let votes = get_restart_votes db sid
      in if mid \<notin> set votes
         then update_sessions sid (\<lambda>r. r\<lparr>restart_votes := votes @ [mid]\<rparr>) db
         else db)"

definition clear_restart_votes :: "database \<Rightarrow> pystr \<Rightarrow> database" where
  "clear_restart_votes db sid = update_sessions sid (\<lambda>r. r\<lparr>restart_votes := []\<rparr>) db"


section \<open>Item manager (session.py)\<close>

text \<open>
  A result dictionary \<open>{"success": False, "error": ...}\<close> is the failure it reports, in the
  order of the messages in the source: "Item cannot be empty", "Member not found",
  "Observers cannot add items", "Cannot add items after marking ready" (for \<open>remove_item\<close>:
  "Cannot remove items after marking ready"), "Duplicate item", "Invalid item index".
  \<open>{"success": True, "items": items}\<close> is \<open>Inr items\<close>.
\<close>

datatype failure =
  ItemEmpty | MemberNotFound | ObserverForbidden | AlreadyReady | DuplicateItem | InvalidIndex

definition add_item ::
  "database \<Rightarrow> pystr \<Rightarrow> pystr \<Rightarrow> pystr \<Rightarrow> real \<Rightarrow> (failure + pystr list) \<times> database" where
  "add_item db sid mid item0 now =
     (let item = strip item0
      in if item = [] then (Inl ItemEmpty, db)
         else case get_member db sid mid of
           None \<Rightarrow> (Inl MemberNotFound, db)
         | Some member \<Rightarrow>
             if is_observer member then (Inl ObserverForbidden, db)
             else if is_ready member then (Inl AlreadyReady, db)
             else if is_duplicate_item item (items member) then (Inl DuplicateItem, db)
             else let its = items member @ [item]
                  in (Inr its, update_member_items db sid mid its now))"

definition remove_item ::
  "database \<Rightarrow> pystr \<Rightarrow> pystr \<Rightarrow> int \<Rightarrow> real \<Rightarrow> (failure + pystr list) \<times> database" where
  "remove_item db sid mid item_index now =
     (case get_member db sid mid of
        None \<Rightarrow> (Inl MemberNotFound, db)
      | Some member \<Rightarrow>
          if is_ready member then (Inl AlreadyReady, db)
          else if item_index < 0 \<or> item_index \<ge> int (length (items member))
          then (Inl InvalidIndex, db)
          else let its = take (nat item_index) (items member)
                         @ drop (Suc (nat item_index)) (items member)
               in (Inr its, update_member_items db sid mid its now))"


section \<open>Readiness barrier and phase state machine (session.py)\<close>

definition set_ready ::
  "database \<Rightarrow> pystr \<Rightarrow> pystr \<Rightarrow> bool \<Rightarrow> real \<Rightarrow> (failure + unit) \<times> database" where
  "set_ready db sid mid flag now =
     (case get_member db sid mid of
        None \<Rightarrow> (Inl MemberNotFound, db)
      | Some member \<Rightarrow>
          if is_observer member then (Inl ObserverForbidden, db)
          else (Inr (), set_member_ready db sid mid flag now))"

definition set_accepted_items ::
  "database \<Rightarrow> pystr \<Rightarrow> pystr \<Rightarrow> pystr list \<Rightarrow> real \<Rightarrow> (failure + unit) \<times> database" where
  "set_accepted_items db sid mid accepted now =
     (case get_member db sid mid of
        None \<Rightarrow> (Inl MemberNotFound, db)
      | Some member \<Rightarrow>
          if is_observer member then (Inl ObserverForbidden, db)
          else (Inr (), update_member_accepted_items db sid mid accepted now))"

definition AUTO_READY_TIMEOUT :: real where
  "AUTO_READY_TIMEOUT = 2 * 60"

record ready_status =
  ready :: nat
  total :: nat
  all_ready :: bool

text \<open>One iteration of the loop over the members read at the start.\<close>

definition ready_step :: "pystr \<Rightarrow> real \<Rightarrow> member_row \<Rightarrow> nat \<times> database \<Rightarrow> nat \<times> database" where
  "ready_step sid now member acc =
     (case acc of (ready_count, db) \<Rightarrow>
        if is_ready member then (ready_count + 1, db)
        else if now - last_seen member > AUTO_READY_TIMEOUT
        then (ready_count + 1, set_member_ready db sid (member_id member) True now)
        else (ready_count, db))"

definition get_ready_status :: "database \<Rightarrow> pystr \<Rightarrow> real \<Rightarrow> ready_status \<times> database" where
  "get_ready_status db sid now =
     (let ms = get_active_members db sid;
          total_count = length ms
      in case fold (ready_step sid now) ms (0, db) of (ready_count, db') \<Rightarrow>
           (\<lparr>ready = ready_count, total = total_count,
             all_ready = (ready_count = total_count \<and> total_count > 0)\<rparr>, db'))"

definition check_and_advance_phase ::
  "database \<Rightarrow> pystr \<Rightarrow> real \<Rightarrow> phase option \<times> database" where
  "check_and_advance_phase db sid now =
     (case get_session db sid of
        None \<Rightarrow> (None, db)
      | Some session \<Rightarrow>
          (case get_ready_status db sid now of (status, db1) \<Rightarrow>
             if \<not> all_ready status then (None, db1)
             else (case phase session of
                     ADDING \<Rightarrow>
                       (Some ACCEPTING,
                        set_session_phase (reset_all_ready_status db1 sid) sid ACCEPTING now)
                   | ACCEPTING \<Rightarrow> (Some RESULT, set_session_phase db1 sid RESULT now)
                   | RESULT \<Rightarrow> (None, db1))))"


section \<open>Selection engine (session.py)\<close>

text \<open>
  \<open>fair_random_select length\<close>, given the value \<open>rnd\<close> that
  \<open>random.randint(length * 10000, length * 90000)\<close> returned: some integer of
  \<open>randint_values length\<close>, each with the same probability.
\<close>

definition randint_values :: "int \<Rightarrow> int set" where
  "randint_values len = {len * 10000 .. len * 90000}"

definition fair_random_select :: "int \<Rightarrow> int \<Rightarrow> int" where
  "fair_random_select len rnd = (if len \<le> 0 then 0 else rnd mod len)"

text \<open>
  The first loop of \<open>group_items_by_acceptance\<close>. \<open>normalized_to_original\<close> is a
  dictionary in insertion order (an association list), \<open>item_acceptances\<close> a
  \<open>defaultdict(set)\<close> (a function, the empty set by default).
\<close>

type_synonym acceptances = "(pystr \<times> pystr) list \<times> (pystr \<Rightarrow> pystr set)"

definition own_item_step :: "pystr \<Rightarrow> pystr \<Rightarrow> acceptances \<Rightarrow> acceptances" where
  "own_item_step mid item st =
     (case st of (normalized_to_original, item_acceptances) \<Rightarrow>
        let nrm = normalize_item item
        in ((if map_of normalized_to_original nrm = None
             then normalized_to_original @ [(nrm, item)]
             else normalized_to_original),
            item_acceptances(nrm := insert mid (item_acceptances nrm))))"

definition accepted_item_step :: "pystr \<Rightarrow> pystr \<Rightarrow> acceptances \<Rightarrow> acceptances" where
  "accepted_item_step mid item st =
     (case st of (normalized_to_original, item_acceptances) \<Rightarrow>
        let nrm = normalize_item item
        in if map_of normalized_to_original nrm \<noteq> None
           then (normalized_to_original,
                 item_acceptances(nrm := insert mid (item_acceptances nrm)))
           else (normalized_to_original, item_acceptances))"

definition member_step :: "member_row \<Rightarrow> acceptances \<Rightarrow> acceptances" where
  "member_step member st =
     fold (accepted_item_step (member_id member)) (accepted_items member)
       (fold (own_item_step (member_id member)) (items member) st)"

definition collect_acceptances :: "member_row list \<Rightarrow> acceptances" where
  "collect_acceptances ms = fold member_step ms ([], \<lambda>nrm. {})"

text \<open>
  \<open>groups[acceptors].append(original)\<close> on a \<open>defaultdict(list)\<close> in insertion order: the
  list of an existing key grows, a new key goes last.
\<close>

fun groups_append :: "pystr set \<Rightarrow> pystr \<Rightarrow> (pystr set \<times> pystr list) list
    \<Rightarrow> (pystr set \<times> pystr list) list" where
  "groups_append acceptors original [] = [(acceptors, [original])]"
| "groups_append acceptors original ((k, vs) # groups) =
     (if k = acceptors then (k, vs @ [original]) # groups
      else (k, vs) # groups_append acceptors original groups)"

definition group_step :: "pystr list \<Rightarrow> (pystr \<Rightarrow> pystr set) \<Rightarrow> pystr \<times> pystr
    \<Rightarrow> (pystr set \<times> pystr list) list \<Rightarrow> (pystr set \<times> pystr list) list" where
  "group_step excluded item_acceptances entry groups =
     (case entry of (nrm, original) \<Rightarrow>
        if list_ex (items_equal original) excluded then groups
        else let acceptors = item_acceptances nrm
             in if acceptors \<noteq> {} then groups_append acceptors original groups
                else groups)"

definition group_items_by_acceptance ::
  "database \<Rightarrow> pystr \<Rightarrow> (pystr set \<times> pystr list) list" where
  "group_items_by_acceptance db sid =
     (let ms = get_active_members db sid;
          excluded = get_excluded_items db sid
      in case collect_acceptances ms of (normalized_to_original, item_acceptances) \<Rightarrow>
           fold (group_step excluded item_acceptances) normalized_to_original [])"

text \<open>
  \<open>seq[index]\<close> on a Python list: positions \<open>0 .. len - 1\<close> read from the front,
  positions \<open>-len .. -1\<close> from the back, and any other position raises \<open>IndexError\<close>.
\<close>

datatype exn = IndexError

definition getitem :: "'a list \<Rightarrow> int \<Rightarrow> exn + 'a" where
  "getitem seq index =
     (if 0 \<le> index \<and> index < int (length seq) then Inr (seq ! nat index)
      else if - int (length seq) \<le> index \<and> index < 0
      then Inr (seq ! nat (int (length seq) + index))
      else Inl IndexError)"

text \<open>
  The two draws of \<open>select_item\<close>, given the values \<open>rnd1\<close> and \<open>rnd2\<close> that its two calls
  of \<open>random.randint\<close> returned.
\<close>

definition pick_item :: "(pystr set \<times> pystr list) list \<Rightarrow> int \<Rightarrow> int \<Rightarrow> exn + pystr" where
  "pick_item groups rnd1 rnd2 =
     (let group_list = map snd groups;
          group_index = fair_random_select (int (length group_list)) rnd1
      in case getitem group_list group_index of
           Inl e \<Rightarrow> Inl e
         | Inr selected_group \<Rightarrow>
             getitem selected_group
               (fair_random_select (int (length selected_group)) rnd2))"

definition select_item ::
  "database \<Rightarrow> pystr \<Rightarrow> int \<Rightarrow> int \<Rightarrow> (exn + pystr option) \<times> database" where
  "select_item db sid rnd1 rnd2 =
     (let groups = group_items_by_acceptance db sid
      in if groups = []
         then let db1 = clear_excluded_items db sid;
                  groups1 = group_items_by_acceptance db1 sid
              in if groups1 = [] then (Inr None, db1)
                 else (map_sum id Some (pick_item groups1 rnd1 rnd2), db1)
         else (map_sum id Some (pick_item groups rnd1 rnd2), db))"

text \<open>The first statements of \<open>roll_next\<close>, up to the call of \<open>select_item\<close>.\<close>

definition exclude_item :: "database \<Rightarrow> pystr \<Rightarrow> pystr \<Rightarrow> database" where
  "exclude_item db sid current_item =
     (let excluded = get_excluded_items db sid
      in if \<not> list_ex (items_equal current_item) excluded
         then set_excluded_items db sid (excluded @ [current_item])
         else db)"

definition roll_next ::
  "database \<Rightarrow> pystr \<Rightarrow> pystr \<Rightarrow> int \<Rightarrow> int \<Rightarrow> (exn + pystr option) \<times> database" where
  "roll_next db sid current_item rnd1 rnd2 =
     select_item (exclude_item db sid current_item) sid rnd1 rnd2"


section \<open>Restart barrier (session.py)\<close>

record vote_status =
  votes :: nat
  vote_total :: nat
  all_voted :: bool

definition vote_restart :: "database \<Rightarrow> pystr \<Rightarrow> pystr \<Rightarrow> vote_status \<times> database" where
  "vote_restart db sid mid =
     (let db1 = add_restart_vote db sid mid;
          vs = get_restart_votes db1 sid;
          ms = get_active_members db1 sid
      in (\<lparr>votes = length vs, vote_total = length ms,
           all_voted = list_all (\<lambda>m. member_id m \<in> set vs) ms\<rparr>, db1))"

definition start_fresh :: "database \<Rightarrow> pystr \<Rightarrow> real \<Rightarrow> database" where
  "start_fresh db sid now =
     (let db = clear_all_items db sid;
          db = reset_all_ready_status db sid;
          db = reset_all_accepted_items db sid;
          db = clear_excluded_items db sid;
          db = clear_restart_votes db sid;
          db = promote_observers db sid
      in set_session_phase db sid ADDING now)"


section \<open>Auxiliary notions\<close>

text \<open>
  A member that the loop of \<open>get_ready_status\<close> promotes, and the store after the promotion
  of the members with the given ids.
\<close>

definition stale :: "real \<Rightarrow> member_row \<Rightarrow> bool" where
  "stale now m \<longleftrightarrow> \<not> is_ready m \<and> now - last_seen m > AUTO_READY_TIMEOUT"

definition promote :: "pystr \<Rightarrow> real \<Rightarrow> pystr set \<Rightarrow> database \<Rightarrow> database" where
  "promote sid now ids db =
     (if ids = {} then db
      else update_sessions sid (\<lambda>r. r\<lparr>last_activity := now\<rparr>)
             (update_members (\<lambda>m. of_session m = sid \<and> member_id m \<in> ids)
                (\<lambda>m. m\<lparr>is_ready := True, last_seen := now\<rparr>) db))"


text \<open>
  The registry \<open>normalized_to_original\<close> with the acceptances: its keys are distinct, each
  is the key of its original string, and each has an acceptor. It tracks a set of strings
  when its keys are the keys of these strings and its originals are among them.
\<close>

definition well_formed :: "acceptances \<Rightarrow> bool" where
  "well_formed st \<longleftrightarrow>
     distinct (map fst (fst st))
     \<and> list_all (\<lambda>e. fst e = normalize_item (snd e) \<and> snd st (fst e) \<noteq> {}) (fst st)"

definition tracks :: "pystr set \<Rightarrow> acceptances \<Rightarrow> bool" where
  "tracks S st \<longleftrightarrow>
     well_formed st \<and> fst ` set (fst st) = normalize_item ` S \<and> snd ` set (fst st) \<subseteq> S"


section \<open>Example sessions\<close>

text \<open>
  Session \<open>"S"\<close> with members \<open>"A"\<close> (item \<open>"Tea"\<close>) and \<open>"B"\<close> (item \<open>"Coffee"\<close>, accepts
  \<open>"Tea"\<close>), in the two orders of the rows of the members table.
\<close>

definition tea_A :: member_row where
  "tea_A = (new_member (str ''S'') (str ''A'') False 0)\<lparr>items := [str ''Tea'']\<rparr>"

definition tea_B :: member_row where
  "tea_B = (new_member (str ''S'') (str ''B'') False 0)
             \<lparr>items := [str ''Coffee''], accepted_items := [str ''Tea'']\<rparr>"

definition tea_AB :: database where
  "tea_AB = \<lparr>sessions = [(new_session (str ''S'') (str ''A'') 0)\<lparr>phase := RESULT\<rparr>],
             members = [tea_A, tea_B]\<rparr>"

definition tea_BA :: database where
  "tea_BA = \<lparr>sessions = [(new_session (str ''S'') (str ''B'') 0)\<lparr>phase := RESULT\<rparr>],
             members = [tea_B, tea_A]\<rparr>"

text \<open>Session \<open>"S"\<close> in a given phase with the single member \<open>"A"\<close>, who has no items.\<close>

definition solo :: "phase \<Rightarrow> database" where
  "solo ph = \<lparr>sessions = [(new_session (str ''S'') (str ''A'') 0)\<lparr>phase := ph\<rparr>],
              members = [new_member (str ''S'') (str ''A'') False 0]\<rparr>"

text \<open>
  Session \<open>"S"\<close> in phase \<open>ADDING\<close> at time 1000: \<open>"A"\<close> was seen just now, \<open>"B"\<close> was last
  seen at time 0; neither is marked ready.
\<close>

definition stale_pair :: database where
  "stale_pair = \<lparr>sessions = [new_session (str ''S'') (str ''A'') 0],
                 members = [new_member (str ''S'') (str ''A'') False 1000,
                            new_member (str ''S'') (str ''B'') False 0]\<rparr>"

text \<open>Session \<open>"S"\<close> in phase \<open>RESULT\<close> with three active members and one observer.\<close>

definition trio :: database where
  "trio = \<lparr>sessions = [(new_session (str ''S'') (str ''A'') 0)\<lparr>phase := RESULT\<rparr>],
           members = [(new_member (str ''S'') (str ''A'') False 0)
                        \<lparr>items := [str ''Tea''], is_ready := True\<rparr>,
                      (new_member (str ''S'') (str ''B'') False 0)
                        \<lparr>items := [str ''Coffee''], is_ready := True,
                         accepted_items := [str ''Tea'']\<rparr>,
                      (new_member (str ''S'') (str ''C'') False 0)\<lparr>is_ready := True\<rparr>,
                      new_member (str ''S'') (str ''D'') True 0]\<rparr>"


section \<open>Properties of the normalizer\<close>

lemma space_not_alnum: "is_space c \<Longrightarrow> \<not> is_alnum c"
  by (auto simp: is_space_def is_alnum_def)

lemma normalize_item_eq: "normalize_item item = map lower_cp (filter is_alnum item)"
proof -
  have "filter is_alnum (filter (\<lambda>c. \<not> is_space c) item) = filter is_alnum item"
    by (induction item) (auto dest: space_not_alnum)
  then show ?thesis
    by (simp add: normalize_item_def lower_def)
qed

lemma lower_cp_alnum: "is_alnum (lower_cp c) \<longleftrightarrow> is_alnum c"
  by (auto simp: is_alnum_def lower_cp_def)

lemma lower_cp_idem: "lower_cp (lower_cp c) = lower_cp c"
  by (simp add: lower_cp_def)

lemma filter_alnum_lower: "filter is_alnum (map lower_cp s) = map lower_cp (filter is_alnum s)"
  by (induction s) (simp_all add: lower_cp_alnum)

lemma normalize_item_lower: "normalize_item (map lower_cp s) = normalize_item s"
  by (simp add: normalize_item_eq filter_alnum_lower lower_cp_idem)

lemma normalize_item_filter: "normalize_item (filter is_alnum s) = normalize_item s"
  by (simp add: normalize_item_eq)

lemma normalize_item_idem: "normalize_item (normalize_item s) = normalize_item s"
  by (simp add: normalize_item_eq filter_alnum_lower lower_cp_idem)

lemma normalize_item_strip: "normalize_item (strip s) = normalize_item s"
proof -
  have drop: "filter is_alnum (dropWhile is_space t) = filter is_alnum t" for t
    by (induction t) (auto dest: space_not_alnum)
  have "filter is_alnum (strip s) =
          rev (filter is_alnum (dropWhile is_space (rev (dropWhile is_space s))))"
    by (simp add: strip_def rev_filter)
  also have "\<dots> = rev (filter is_alnum (rev (dropWhile is_space s)))"
    by (simp only: drop)
  also have "\<dots> = filter is_alnum (dropWhile is_space s)"
    by (simp add: rev_filter [symmetric])
  also have "\<dots> = filter is_alnum s"
    by (simp only: drop)
  finally show ?thesis
    by (simp add: normalize_item_eq)
qed

lemma duplicate_loop_iff:
  "duplicate_loop n existing \<longleftrightarrow> n \<in> normalize_item ` set existing"
  by (induction existing) auto

lemma is_duplicate_item_iff:
  "is_duplicate_item new existing \<longleftrightarrow>
     normalize_item new = [] \<or> normalize_item new \<in> normalize_item ` set existing"
  by (simp add: is_duplicate_item_def Let_def duplicate_loop_iff)

text \<open>
  C8. \<open>normalize_item\<close> is idempotent; it ignores case (an input lowered first gives the
  same key), whitespace and punctuation (an input with everything outside \<open>[a-zA-Z0-9]\<close>
  removed first, or stripped first, gives the same key); \<open>"Pizza!"\<close> and \<open>" pizza "\<close> both
  normalize to \<open>"pizza"\<close>; and \<open>items_equal\<close> is reflexive and symmetric.
\<close>

theorem normalize_item_idempotent:
  "normalize_item (normalize_item x) = normalize_item x
   \<and> normalize_item (map lower_cp x) = normalize_item x
   \<and> normalize_item (filter (\<lambda>c. \<not> is_space c) x) = normalize_item x
   \<and> normalize_item (filter is_alnum x) = normalize_item x
   \<and> normalize_item (strip x) = normalize_item x
   \<and> normalize_item (str ''Pizza!'') = str ''pizza''
   \<and> normalize_item (str '' pizza '') = str ''pizza''
   \<and> items_equal a a
   \<and> items_equal a b = items_equal b a"
proof -
  have "filter is_alnum (filter (\<lambda>c. \<not> is_space c) x) = filter is_alnum x"
    by (induction x) (auto dest: space_not_alnum)
  then have "normalize_item (filter (\<lambda>c. \<not> is_space c) x) = normalize_item x"
    by (simp add: normalize_item_eq)
  moreover have "normalize_item (str ''Pizza!'') = str ''pizza''"
    by (simp add: normalize_item_eq str_def is_alnum_def lower_cp_def)
  moreover have "normalize_item (str '' pizza '') = str ''pizza''"
    by (simp add: normalize_item_eq str_def is_alnum_def lower_cp_def)
  moreover have "items_equal a b = items_equal b a"
    by (auto simp: items_equal_def)
  ultimately show ?thesis
    by (simp add: normalize_item_idem normalize_item_lower normalize_item_filter
        normalize_item_strip items_equal_def)
qed

lemma alnum_ascii: "is_alnum c \<Longrightarrow> c < 128"
  by (auto simp: is_alnum_def)

lemma filter_alnum_ascii:
  "filter is_alnum (filter (\<lambda>c. c < 128) s) = filter is_alnum s"
  by (induction s) (auto dest: alnum_ascii)

lemma same_ascii_same_key:
  assumes "filter (\<lambda>c. c < 128) a = filter (\<lambda>c. c < 128) b"
  shows "normalize_item a = normalize_item b"
proof -
  have "filter is_alnum a = filter is_alnum (filter (\<lambda>c. c < 128) a)"
    by (simp only: filter_alnum_ascii)
  also have "\<dots> = filter is_alnum (filter (\<lambda>c. c < 128) b)"
    by (simp only: assms)
  also have "\<dots> = filter is_alnum b"
    by (simp only: filter_alnum_ascii)
  finally show ?thesis
    by (simp add: normalize_item_eq)
qed

lemma same_key_duplicate:
  assumes "normalize_item a = normalize_item b" "b \<in> set existing"
  shows "is_duplicate_item a existing"
  using assms by (auto simp: is_duplicate_item_iff)

text \<open>
  C10. The key that \<open>normalize_item\<close> returns holds ASCII lowercase letters and digits
  only: it is the input with every character outside \<open>[a-zA-Z0-9]\<close> deleted (nothing is
  put in its place) and the letters lowered. So two items that differ only in non-ASCII
  characters (their ASCII characters, in order, are the same), and more generally two items
  with the same characters of \<open>[a-zA-Z0-9]\<close>, have the same key, and each is a duplicate
  of the other under \<open>is_duplicate_item\<close>, alone or among other existing items; for example
  \<open>"D\<ouml>ner"\<close> (with U+00F6) and \<open>"Dner"\<close>.
\<close>

theorem normalize_item_ascii_only:
  "set (normalize_item x) \<subseteq> {97..122} \<union> {48..57}
   \<and> normalize_item x = map lower_cp (filter is_alnum x)
   \<and> length (normalize_item x) = length (filter is_alnum x)
   \<and> normalize_item (str ''D'' @ [246] @ str ''ner'') = str ''dner''
   \<and> normalize_item (str ''Dner'') = str ''dner''
   \<and> is_duplicate_item (str ''D'' @ [246] @ str ''ner'') [str ''Dner'']
   \<and> is_duplicate_item (str ''Dner'') [str ''D'' @ [246] @ str ''ner'']
   \<and> (filter (\<lambda>c. c < 128) a = filter (\<lambda>c. c < 128) b \<longrightarrow>
        normalize_item a = normalize_item b
        \<and> is_duplicate_item a [b] \<and> is_duplicate_item b [a]
        \<and> (b \<in> set existing \<longrightarrow> is_duplicate_item a existing))
   \<and> (filter is_alnum a = filter is_alnum b \<longrightarrow>
        normalize_item a = normalize_item b
        \<and> is_duplicate_item a [b] \<and> is_duplicate_item b [a]
        \<and> (b \<in> set existing \<longrightarrow> is_duplicate_item a existing))"
proof -
  have key: "is_duplicate_item a [b] \<and> is_duplicate_item b [a]
        \<and> (b \<in> set existing \<longrightarrow> is_duplicate_item a existing)"
    if "normalize_item a = normalize_item b"
    using that same_key_duplicate [of a b "[b]"] same_key_duplicate [of b a "[a]"]
      same_key_duplicate [of a b existing]
    by simp
  have ascii: "normalize_item a = normalize_item b
        \<and> is_duplicate_item a [b] \<and> is_duplicate_item b [a]
        \<and> (b \<in> set existing \<longrightarrow> is_duplicate_item a existing)"
    if "filter (\<lambda>c. c < 128) a = filter (\<lambda>c. c < 128) b"
    using key [OF same_ascii_same_key [OF that]] same_ascii_same_key [OF that] by simp
  have alnum: "normalize_item a = normalize_item b
        \<and> is_duplicate_item a [b] \<and> is_duplicate_item b [a]
        \<and> (b \<in> set existing \<longrightarrow> is_duplicate_item a existing)"
    if "filter is_alnum a = filter is_alnum b"
  proof -
    have "normalize_item a = normalize_item b"
      using that by (simp add: normalize_item_eq)
    then show ?thesis using key by simp
  qed
  have "set (normalize_item x) \<subseteq> {97..122} \<union> {48..57}"
    by (auto simp: normalize_item_eq is_alnum_def lower_cp_def)
  moreover have a: "normalize_item (str ''D'' @ [246] @ str ''ner'') = str ''dner''"
    by (simp add: normalize_item_eq str_def is_alnum_def lower_cp_def)
  moreover have b: "normalize_item (str ''Dner'') = str ''dner''"
    by (simp add: normalize_item_eq str_def is_alnum_def lower_cp_def)
  moreover have "str ''dner'' \<noteq> []"
    by (simp add: str_def)
  moreover have "length (normalize_item x) = length (filter is_alnum x)"
    by (simp add: normalize_item_eq)
  ultimately have first: "set (normalize_item x) \<subseteq> {97..122} \<union> {48..57}
   \<and> normalize_item x = map lower_cp (filter is_alnum x)
   \<and> length (normalize_item x) = length (filter is_alnum x)
   \<and> normalize_item (str ''D'' @ [246] @ str ''ner'') = str ''dner''
   \<and> normalize_item (str ''Dner'') = str ''dner''
   \<and> is_duplicate_item (str ''D'' @ [246] @ str ''ner'') [str ''Dner'']
   \<and> is_duplicate_item (str ''Dner'') [str ''D'' @ [246] @ str ''ner'']"
    by (simp add: normalize_item_eq [symmetric] is_duplicate_item_def)
  show ?thesis
    using first ascii alnum by blast
qed

theorem normalize_item_ascii_only_witness:
  "filter (\<lambda>c. c < 128) (str ''D'' @ [246] @ str ''ner'') = filter (\<lambda>c. c < 128) (str ''Dner'')
   \<and> str ''Dner'' \<in> set [str ''Pizza'', str ''Dner'']
   \<and> normalize_item (str ''D'' @ [246] @ str ''ner'') = normalize_item (str ''Dner'')
   \<and> is_duplicate_item (str ''D'' @ [246] @ str ''ner'') [str ''Dner'']
   \<and> is_duplicate_item (str ''Dner'') [str ''D'' @ [246] @ str ''ner'']
   \<and> is_duplicate_item (str ''D'' @ [246] @ str ''ner'') [str ''Pizza'', str ''Dner'']"
proof -
  have f: "filter (\<lambda>c. c < 128) (str ''D'' @ [246] @ str ''ner'')
           = filter (\<lambda>c. c < 128) (str ''Dner'')"
    by (simp add: str_def)
  have e: "str ''Dner'' \<in> set [str ''Pizza'', str ''Dner'']"
    by simp
  show ?thesis
    using normalize_item_ascii_only
      [of "[]" "str ''D'' @ [246] @ str ''ner''" "str ''Dner''" "[str ''Pizza'', str ''Dner'']"]
      f e
    by blast
qed


section \<open>Properties of the store and the operations\<close>

lemma find_map_keep:
  "(\<And>x. P (f x) = P x) \<Longrightarrow> find P (map f xs) = map_option f (find P xs)"
  by (induction xs) auto

lemma get_member_update_sessions [simp]:
  "get_member (update_sessions sid' f db) sid mid = get_member db sid mid"
  by (simp add: get_member_def update_sessions_def)

lemma members_update_sessions [simp]:
  "members (update_sessions sid' f db) = members db"
  by (simp add: update_sessions_def)

lemma sessions_update_members [simp]:
  "sessions (update_members sel f db) = sessions db"
  by (simp add: update_members_def)

lemma get_session_update_members [simp]:
  "get_session (update_members sel f db) sid = get_session db sid"
  by (simp add: get_session_def)

lemma get_member_update_members:
  assumes "\<And>m. of_session (f m) = of_session m" "\<And>m. member_id (f m) = member_id m"
  shows "get_member (update_members sel f db) sid mid =
         map_option (\<lambda>m. if sel m then f m else m) (get_member db sid mid)"
  unfolding get_member_def update_members_def
  by (simp add: find_map_keep assms)

lemma get_session_update_sessions:
  assumes "\<And>r. session_id (f r) = session_id r"
  shows "get_session (update_sessions sid' f db) sid =
         map_option (\<lambda>r. if session_id r = sid' then f r else r) (get_session db sid)"
  unfolding get_session_def update_sessions_def
  by (simp add: find_map_keep assms)

lemma get_member_Some:
  "get_member db sid mid = Some m \<Longrightarrow> of_session m = sid \<and> member_id m = mid \<and> m \<in> set (members db)"
  by (auto simp: get_member_def find_Some_iff)

subsection \<open>Adding items\<close>

lemma add_item_fails_iff:
  "isl (fst (add_item db sid mid item now)) \<longleftrightarrow>
     normalize_item item = [] \<or>
     (case get_member db sid mid of
        None \<Rightarrow> True
      | Some m \<Rightarrow> is_observer m \<or> is_ready m
                 \<or> normalize_item item \<in> normalize_item ` set (items m))"
proof -
  have e: "strip item = [] \<Longrightarrow> normalize_item item = []"
    using normalize_item_strip [of item] by (simp add: normalize_item_eq)
  show ?thesis
    using e by (auto simp: add_item_def Let_def is_duplicate_item_iff normalize_item_strip
        split: option.splits)
qed

lemma add_item_success:
  assumes "add_item db sid mid item now = (Inr its, db')"
  shows "\<exists>m. get_member db sid mid = Some m \<and> its = items m @ [strip item]
           \<and> map_option items (get_member db' sid mid) = Some (items m @ [strip item])
           \<and> map items (members db') =
               map (\<lambda>r. if of_session r = sid \<and> member_id r = mid
                        then items m @ [strip item] else items r) (members db)"
proof -
  from assms obtain m where gm: "get_member db sid mid = Some m"
    and its: "its = items m @ [strip item]"
    and db': "db' = update_member_items db sid mid its now"
    by (auto simp: add_item_def Let_def split: option.splits if_splits)
  have "map_option items (get_member db' sid mid) = Some its"
    using get_member_Some [OF gm]
    by (simp add: db' update_member_items_def get_member_update_members gm)
  moreover have "map items (members db') =
      map (\<lambda>r. if of_session r = sid \<and> member_id r = mid then its else items r) (members db)"
    by (simp add: db' update_member_items_def update_members_def o_def if_distrib cong: if_cong)
  ultimately show ?thesis
    using gm its by simp
qed

lemma strip_id:
  assumes "item \<noteq> []" "\<not> is_space (hd item)" "\<not> is_space (last item)"
  shows "strip item = item"
proof -
  have "dropWhile is_space item = item"
    using assms by (cases item) simp_all
  moreover have "dropWhile is_space (rev item) = rev item"
    using assms by (cases "rev item") (simp_all add: hd_rev [symmetric])
  ultimately show ?thesis
    by (simp add: strip_def)
qed


subsection \<open>Residues of the drawn range\<close>

lemma mod_class_image:
  fixes n i a b :: int
  assumes n: "0 < n" and i: "0 \<le> i" "i < n"
  shows "{r \<in> {a * n .. b * n}. r mod n = i} = (\<lambda>k. k * n + i) ` {a .. (if i = 0 then b else b - 1)}"
proof (intro equalityI subsetI)
  fix r assume "r \<in> {r \<in> {a * n .. b * n}. r mod n = i}"
  then have lo: "a * n \<le> r" and hi: "r \<le> b * n" and m: "r mod n = i" by auto
  define k where "k = r div n"
  have r: "r = k * n + i" using m div_mult_mod_eq [of r n] by (simp add: k_def)
  have "(k + 1) * n = k * n + n" by (simp add: algebra_simps)
  then have "a * n < (k + 1) * n" using lo r i by linarith
  then have ak: "a \<le> k" using n by (simp add: mult_less_cancel_right)
  have kb: "k \<le> (if i = 0 then b else b - 1)"
  proof (cases "i = 0")
    case True
    then have "k * n \<le> b * n" using hi r by linarith
    then show ?thesis using n True by (simp add: mult_le_cancel_right)
  next
    case False
    then have "k * n < b * n" using hi r i by linarith
    then have "k < b" using n by (simp add: mult_less_cancel_right)
    then show ?thesis using False by simp
  qed
  show "r \<in> (\<lambda>k. k * n + i) ` {a .. (if i = 0 then b else b - 1)}"
    using r ak kb by auto
next
  fix r assume "r \<in> (\<lambda>k. k * n + i) ` {a .. (if i = 0 then b else b - 1)}"
  then obtain k where r: "r = k * n + i" and ak: "a \<le> k" and kb: "k \<le> (if i = 0 then b else b - 1)"
    by (elim imageE) (metis atLeastAtMost_iff)
  have "a * n \<le> k * n" using ak n by (simp add: mult_le_cancel_right)
  then have lo: "a * n \<le> r" using r i by linarith
  have hi: "r \<le> b * n"
  proof (cases "i = 0")
    case True
    then show ?thesis using kb n r by (simp add: mult_le_cancel_right)
  next
    case False
    then have "k + 1 \<le> b" using kb by simp
    then have "(k + 1) * n \<le> b * n" using n by (simp only: mult_le_cancel_right) simp
    moreover have "(k + 1) * n = k * n + n" by (simp add: algebra_simps)
    ultimately show ?thesis using r i by linarith
  qed
  have "r mod n = i" using r i n by simp
  then show "r \<in> {r \<in> {a * n .. b * n}. r mod n = i}" using lo hi by simp
qed

lemma mod_class_card:
  fixes n i a b :: int
  assumes n: "0 < n" and i: "0 \<le> i" "i < n" and ab: "a \<le> b"
  shows "card {r \<in> {a * n .. b * n}. r mod n = i} = nat (b - a) + (if i = 0 then 1 else 0)"
proof -
  have inj: "inj_on (\<lambda>k. k * n + i) A" for A
    using n by (auto simp: inj_on_def)
  show ?thesis
    unfolding mod_class_image [OF n i] card_image [OF inj]
    using ab by auto
qed

lemma fair_count:
  assumes "1 \<le> n" "0 \<le> i" "i < n"
  shows "card {r \<in> randint_values n. fair_random_select n r = i} = (if i = 0 then 80001 else 80000)"
proof -
  have "{r \<in> randint_values n. fair_random_select n r = i} = {r \<in> {10000 * n .. 90000 * n}. r mod n = i}"
    using assms by (auto simp: randint_values_def fair_random_select_def mult.commute)
  then show ?thesis
    using mod_class_card [of n i 10000 90000] assms by simp
qed



subsection \<open>Acceptance groups, the draw and the item list\<close>

text \<open>Unfolding sets for the evaluation of the operations on the example sessions.\<close>

lemmas fixture_defs = tea_A_def tea_B_def tea_AB_def tea_BA_def solo_def stale_pair_def trio_def
  new_member_def new_session_def str_def

lemmas store_defs = get_session_def get_member_def get_all_members_def get_active_members_def
  get_excluded_items_def get_restart_votes_def update_sessions_def update_members_def

lemmas normalizer_eval = normalize_item_eq is_alnum_def lower_cp_def items_equal_def

lemmas grouping_defs = group_items_by_acceptance_def collect_acceptances_def member_step_def
  own_item_step_def accepted_item_step_def group_step_def

text \<open>
  C1. The acceptance of an item is credited only when the item is already registered at
  the moment the accepting member is visited: with the rows in the order A, B the groups are
  \<open>{A, B} -> ["Tea"]\<close> and \<open>{B} -> ["Coffee"]\<close>; with the rows in the order B, A the
  acceptance of \<open>"Tea"\<close> by B is dropped and the groups are \<open>{B} -> ["Coffee"]\<close> and
  \<open>{A} -> ["Tea"]\<close>.
\<close>

theorem group_items_by_acceptance_row_order:
  "group_items_by_acceptance tea_AB (str ''S'') =
     [({str ''A'', str ''B''}, [str ''Tea'']), ({str ''B''}, [str ''Coffee''])]
   \<and> group_items_by_acceptance tea_BA (str ''S'') =
     [({str ''B''}, [str ''Coffee'']), ({str ''A''}, [str ''Tea''])]"
  by (simp add: grouping_defs store_defs normalizer_eval fixture_defs Let_def insert_commute)

text \<open>The session \<open>tea_BA\<close> is reached through the operations of the program.\<close>

lemma tea_BA_reachable:
  "tea_BA =
     (let S = str ''S''; A = str ''A''; B = str ''B'';
          db = snd (create_session \<lparr>sessions = [], members = []\<rparr> S B 0);
          db = snd (add_member db S A False 0);
          db = snd (add_item db S B (str ''Coffee'') 0);
          db = snd (add_item db S A (str ''Tea'') 0);
          db = snd (set_accepted_items db S B [str ''Tea''] 0)
      in set_session_phase db S RESULT 0)"
  by (simp add: create_session_def add_member_def add_item_def set_accepted_items_def
      set_session_phase_def update_member_items_def update_member_accepted_items_def
      is_duplicate_item_def strip_def is_space_def
      store_defs normalizer_eval fixture_defs Let_def)

text \<open>
  C3 (amended). For \<open>n \<ge> 1\<close> the result is \<open>r mod n\<close>, an index of \<open>[0, n)\<close>, for the
  value \<open>r\<close> drawn from the \<open>80000 n + 1\<close> integers of \<open>[10000 n, 90000 n]\<close>; index 0 is
  the result for 80001 of them and every other index for 80000 of them. For \<open>n \<le> 0\<close> the
  result is 0.
\<close>

theorem fair_random_select_distribution:
  "(1 \<le> n \<longrightarrow> fair_random_select n r = r mod n
              \<and> 0 \<le> fair_random_select n r \<and> fair_random_select n r < n
              \<and> card (randint_values n) = nat (80000 * n + 1))
   \<and> (1 \<le> n \<and> 0 \<le> i \<and> i < n \<longrightarrow>
        card {r \<in> randint_values n. fair_random_select n r = i}
          = (if i = 0 then 80001 else 80000))
   \<and> (n \<le> 0 \<longrightarrow> fair_random_select n r = 0)"
  using fair_count [of n i]
  by (auto simp: fair_random_select_def randint_values_def)

theorem fair_random_select_distribution_witness:
  "fair_random_select 3 30001 = 1
   \<and> card (randint_values 3) = 240001
   \<and> card {r \<in> randint_values 3. fair_random_select 3 r = 0} = 80001
   \<and> card {r \<in> randint_values 3. fair_random_select 3 r = 2} = 80000
   \<and> fair_random_select (- 1) 7 = 0"
  using fair_random_select_distribution [of 3 30001 0]
    fair_random_select_distribution [of 3 30001 2]
    fair_random_select_distribution [of "- 1" 7 0]
  by simp

theorem fair_random_select_not_uniform:
  "card {r \<in> randint_values 2. fair_random_select 2 r = 0}
     \<noteq> card {r \<in> randint_values 2. fair_random_select 2 r = 1}"
  using fair_count [of 2 0] fair_count [of 2 1] by simp

text \<open>
  C7 (amended). A successful \<open>add_item\<close> appends \<open>strip item\<close> (the text without its
  leading and trailing whitespace, otherwise character for character) to the member's list,
  and the item list of every other row is as before. A text that neither starts nor ends
  with whitespace is appended as passed in.
\<close>

theorem add_item_appends_stripped:
  assumes "add_item db sid mid item now = (Inr its, db')"
  shows "\<exists>m. get_member db sid mid = Some m \<and> its = items m @ [strip item]
           \<and> map_option items (get_member db' sid mid) = Some (items m @ [strip item])
           \<and> map items (members db') =
               map (\<lambda>r. if of_session r = sid \<and> member_id r = mid
                        then items m @ [strip item] else items r) (members db)
           \<and> (\<not> is_space (hd item) \<and> \<not> is_space (last item) \<longrightarrow> strip item = item)"
proof -
  have "item \<noteq> []"
    using assms by (auto simp: add_item_def strip_def)
  then show ?thesis
    using add_item_success [OF assms] strip_id [of item] by auto
qed

theorem add_item_appends_stripped_witness:
  "add_item (solo ADDING) (str ''S'') (str ''A'') (str ''Hot  Tea'') 5
     = (Inr [str ''Hot  Tea''],
        update_member_items (solo ADDING) (str ''S'') (str ''A'') [str ''Hot  Tea''] 5)
   \<and> map_option items (get_member
        (update_member_items (solo ADDING) (str ''S'') (str ''A'') [str ''Hot  Tea''] 5)
        (str ''S'') (str ''A'')) = Some [str ''Hot  Tea'']"
proof -
  have e: "add_item (solo ADDING) (str ''S'') (str ''A'') (str ''Hot  Tea'') 5
     = (Inr [str ''Hot  Tea''],
        update_member_items (solo ADDING) (str ''S'') (str ''A'') [str ''Hot  Tea''] 5)"
    by (simp add: add_item_def is_duplicate_item_def strip_def is_space_def
        store_defs normalizer_eval fixture_defs Let_def)
  have g: "get_member (solo ADDING) (str ''S'') (str ''A'') = Some (new_member (str ''S'') (str ''A'') False 0)"
    by (simp add: store_defs fixture_defs)
  have s: "strip (str ''Hot  Tea'') = str ''Hot  Tea''"
    by (simp add: strip_def is_space_def str_def)
  show ?thesis
    using add_item_appends_stripped [OF e] e by (simp add: g s new_member_def)
qed

theorem add_item_not_verbatim:
  "fst (add_item (solo ADDING) (str ''S'') (str ''A'') (str '' pizza '') 5) = Inr [str ''pizza'']
   \<and> map_option items (get_member (solo ADDING) (str ''S'') (str ''A'')) = Some []
   \<and> map_option items (get_member
        (snd (add_item (solo ADDING) (str ''S'') (str ''A'') (str '' pizza '') 5))
        (str ''S'') (str ''A'')) \<noteq> Some ([] @ [str '' pizza ''])"
  by (simp add: add_item_def update_member_items_def is_duplicate_item_def strip_def is_space_def
      store_defs normalizer_eval fixture_defs Let_def)


text \<open>
  C9. \<open>add_item\<close> fails exactly when the normalized key of the item is empty, or the member
  row is missing, or the member is an observer or marked ready, or the key is the key of
  one of the member's items. Its outcome and what it writes to the members table do not
  depend on the sessions table (so not on the phase), and the same holds of \<open>remove_item\<close>.
\<close>

theorem add_item_fails_exactly:
  "(isl (fst (add_item db sid mid item now)) \<longleftrightarrow>
      normalize_item item = [] \<or>
      (case get_member db sid mid of
         None \<Rightarrow> True
       | Some m \<Rightarrow> is_observer m \<or> is_ready m
                  \<or> normalize_item item \<in> normalize_item ` set (items m)))
   \<and> fst (add_item (db\<lparr>sessions := ss\<rparr>) sid mid item now) = fst (add_item db sid mid item now)
   \<and> members (snd (add_item (db\<lparr>sessions := ss\<rparr>) sid mid item now))
       = members (snd (add_item db sid mid item now))
   \<and> fst (remove_item (db\<lparr>sessions := ss\<rparr>) sid mid idx now) = fst (remove_item db sid mid idx now)
   \<and> members (snd (remove_item (db\<lparr>sessions := ss\<rparr>) sid mid idx now))
       = members (snd (remove_item db sid mid idx now))"
proof -
  have g: "get_member (db\<lparr>sessions := ss\<rparr>) sid mid = get_member db sid mid"
    by (simp add: get_member_def)
  have u: "members (update_member_items (db\<lparr>sessions := ss\<rparr>) sid mid its now)
           = members (update_member_items db sid mid its now)" for its
    by (simp add: update_member_items_def update_members_def)
  have a: "fst (add_item (db\<lparr>sessions := ss\<rparr>) sid mid item now) = fst (add_item db sid mid item now)"
    by (simp add: add_item_def g Let_def split: option.splits)
  have b: "members (snd (add_item (db\<lparr>sessions := ss\<rparr>) sid mid item now))
       = members (snd (add_item db sid mid item now))"
    by (simp add: add_item_def g u Let_def split: option.splits)
  have c: "fst (remove_item (db\<lparr>sessions := ss\<rparr>) sid mid idx now) = fst (remove_item db sid mid idx now)"
    by (simp add: remove_item_def g Let_def split: option.splits)
  have d: "members (snd (remove_item (db\<lparr>sessions := ss\<rparr>) sid mid idx now))
       = members (snd (remove_item db sid mid idx now))"
    by (simp add: remove_item_def g u Let_def split: option.splits)
  show ?thesis
    using add_item_fails_iff [of db sid mid item now] a b c d by simp
qed

theorem add_item_fails_exactly_witness:
  "\<not> isl (fst (add_item (solo ACCEPTING) (str ''S'') (str ''A'') (str ''Tea'') 5))
   \<and> \<not> isl (fst (add_item (solo RESULT) (str ''S'') (str ''A'') (str ''Tea'') 5))
   \<and> isl (fst (add_item (solo RESULT) (str ''S'') (str ''A'') (str ''?!'') 5))
   \<and> isl (fst (add_item (solo RESULT) (str ''S'') (str ''Z'') (str ''Tea'') 5))
   \<and> fst (add_item (tea_AB\<lparr>sessions := []\<rparr>) (str ''S'') (str ''A'') (str ''tea'') 5)
       = fst (add_item tea_AB (str ''S'') (str ''A'') (str ''tea'') 5)
   \<and> fst (remove_item (tea_AB\<lparr>sessions := []\<rparr>) (str ''S'') (str ''A'') 0 5)
       = fst (remove_item tea_AB (str ''S'') (str ''A'') 0 5)"
  using add_item_fails_exactly [of "solo ACCEPTING" "str ''S''" "str ''A''" "str ''Tea''" 5]
    add_item_fails_exactly [of "solo RESULT" "str ''S''" "str ''A''" "str ''Tea''" 5]
    add_item_fails_exactly [of "solo RESULT" "str ''S''" "str ''A''" "str ''?!''" 5]
    add_item_fails_exactly [of "solo RESULT" "str ''S''" "str ''Z''" "str ''Tea''" 5]
    add_item_fails_exactly [of tea_AB "str ''S''" "str ''A''" "str ''tea''" 5 "[]" 0]
  by (simp add: store_defs normalizer_eval fixture_defs)

subsection \<open>Readiness\<close>

lemma update_members_twice:
  assumes "\<And>m. sel2 (f m) = sel2 m" "\<And>m. f (f m) = f m"
  shows "update_members sel2 f (update_members sel1 f db)
         = update_members (\<lambda>m. sel1 m \<or> sel2 m) f db"
proof -
  have "(\<lambda>m. if sel2 m then f m else m) \<circ> (\<lambda>m. if sel1 m then f m else m)
        = (\<lambda>m. if sel1 m \<or> sel2 m then f m else m)"
    by (auto simp: fun_eq_iff assms)
  then show ?thesis
    by (simp add: update_members_def)
qed

lemma update_sessions_twice:
  assumes "\<And>r. session_id (f r) = session_id r" "\<And>r. f (f r) = f r"
  shows "update_sessions sid f (update_sessions sid f db) = update_sessions sid f db"
proof -
  have "(\<lambda>r. if session_id r = sid then f r else r) \<circ> (\<lambda>r. if session_id r = sid then f r else r)
        = (\<lambda>r. if session_id r = sid then f r else r)"
    by (auto simp: fun_eq_iff assms)
  then show ?thesis
    by (simp add: update_sessions_def)
qed

lemma update_members_sessions_commute:
  "update_members sel f (update_sessions sid g db) = update_sessions sid g (update_members sel f db)"
  by (simp add: update_members_def update_sessions_def)

lemma set_member_ready_promote:
  "set_member_ready (promote sid now ids db) sid mid True now = promote sid now (insert mid ids) db"
proof (cases "ids = {}")
  case True
  then show ?thesis
    by (simp add: promote_def set_member_ready_def)
next
  case False
  have sel: "(\<lambda>m. (of_session m = sid \<and> member_id m \<in> ids) \<or> (of_session m = sid \<and> member_id m = mid))
             = (\<lambda>m. of_session m = sid \<and> member_id m \<in> insert mid ids)"
    by auto
  show ?thesis
    using False
    by (simp add: promote_def set_member_ready_def update_members_sessions_commute
        update_sessions_twice update_members_twice sel)
qed

lemma fold_ready_step:
  "fold (ready_step sid now) ms (rc, promote sid now ids db) =
     (rc + length (filter (\<lambda>m. is_ready m \<or> stale now m) ms),
      promote sid now (ids \<union> member_id ` {m \<in> set ms. stale now m}) db)"
proof (induction ms arbitrary: rc ids)
  case Nil
  then show ?case by simp
next
  case (Cons m ms)
  show ?case
  proof (cases "is_ready m")
    case True
    then have "{x \<in> set (m # ms). stale now x} = {x \<in> set ms. stale now x}"
      by (auto simp: stale_def)
    then show ?thesis
      using True Cons.IH [of "rc + 1" ids] by (simp add: ready_step_def)
  next
    case False
    show ?thesis
    proof (cases "stale now m")
      case True
      then have "{x \<in> set (m # ms). stale now x} = insert m {x \<in> set ms. stale now x}"
        by auto
      then show ?thesis
        using True False Cons.IH [of "rc + 1" "insert (member_id m) ids"]
        by (simp add: ready_step_def stale_def set_member_ready_promote)
    next
      case notstale: False
      then have "{x \<in> set (m # ms). stale now x} = {x \<in> set ms. stale now x}"
        by auto
      then show ?thesis
        using notstale False Cons.IH [of rc ids]
        by (simp add: ready_step_def stale_def)
    qed
  qed
qed

lemma get_ready_status_eq:
  "get_ready_status db sid now =
     (let ms = get_active_members db sid;
          rc = length (filter (\<lambda>m. is_ready m \<or> stale now m) ms)
      in (\<lparr>ready = rc, total = length ms, all_ready = (rc = length ms \<and> length ms > 0)\<rparr>,
          promote sid now (member_id ` {m \<in> set ms. stale now m}) db))"
  using fold_ready_step [of sid now "get_active_members db sid" 0 "{}" db]
  by (simp add: get_ready_status_def Let_def promote_def)


lemma filter_map_keep:
  "(\<And>x. P (f x) = P x) \<Longrightarrow> filter P (map f xs) = map f (filter P xs)"
  by (induction xs) auto

lemma get_all_members_update_sessions [simp]:
  "get_all_members (update_sessions sid' f db) sid = get_all_members db sid"
  by (simp add: get_all_members_def)

lemma get_active_members_update_sessions [simp]:
  "get_active_members (update_sessions sid' f db) sid = get_active_members db sid"
  by (simp add: get_active_members_def)

lemma get_all_members_update_members:
  assumes "\<And>m. of_session (f m) = of_session m"
  shows "get_all_members (update_members sel f db) sid =
         map (\<lambda>m. if sel m then f m else m) (get_all_members db sid)"
  unfolding get_all_members_def update_members_def
  by (simp add: filter_map_keep assms)

lemma get_active_members_update_members:
  assumes "\<And>m. of_session (f m) = of_session m" "\<And>m. is_observer (f m) = is_observer m"
  shows "get_active_members (update_members sel f db) sid =
         map (\<lambda>m. if sel m then f m else m) (get_active_members db sid)"
  unfolding get_active_members_def
  by (simp add: get_all_members_update_members filter_map_keep assms)

lemma get_member_exists:
  "m \<in> set (members db) \<Longrightarrow> \<exists>m0. get_member db (of_session m) (member_id m) = Some m0"
  by (cases "get_member db (of_session m) (member_id m)")
     (auto simp: get_member_def find_None_iff)

lemma active_member_row:
  "m \<in> set (get_active_members db sid) \<Longrightarrow> m \<in> set (members db) \<and> of_session m = sid \<and> \<not> is_observer m"
  by (simp add: get_active_members_def get_all_members_def)

lemma get_member_promote:
  "get_member (promote sid now ids db) sid' mid =
     map_option (\<lambda>m. if of_session m = sid \<and> member_id m \<in> ids
                      then m\<lparr>is_ready := True, last_seen := now\<rparr> else m)
       (get_member db sid' mid)"
  by (cases "get_member db sid' mid")
     (auto simp: promote_def get_member_update_members)

lemma get_active_members_promote:
  "get_active_members (promote sid now ids db) sid' =
     map (\<lambda>m. if of_session m = sid \<and> member_id m \<in> ids
               then m\<lparr>is_ready := True, last_seen := now\<rparr> else m)
       (get_active_members db sid')"
  by (auto simp: promote_def get_active_members_update_members)

lemma get_session_promote:
  "map_option phase (get_session (promote sid now ids db) sid') = map_option phase (get_session db sid')"
  by (cases "get_session db sid'")
     (auto simp: promote_def get_session_update_sessions)

lemma get_session_promote_None:
  "get_session (promote sid now ids db) sid' = None \<longleftrightarrow> get_session db sid' = None"
  by (auto simp: promote_def get_session_update_sessions)

text \<open>
  C4. Over the active members of the session: the ready count is the number of members
  that are marked ready or were last seen more than 120 seconds ago; each member of the
  second kind is marked ready in the store that \<open>get_ready_status\<close> leaves;
  \<open>all_ready\<close> holds exactly when the ready count equals the total and the total is
  positive, so never for a session without active members.
\<close>

theorem get_ready_status_auto_ready:
  assumes "get_ready_status db sid now = (st, db')"
  shows "AUTO_READY_TIMEOUT = 120
    \<and> total st = length (get_active_members db sid)
    \<and> ready st = length (filter (\<lambda>m. is_ready m \<or> now - last_seen m > AUTO_READY_TIMEOUT)
                          (get_active_members db sid))
    \<and> (\<forall>m \<in> set (get_active_members db sid).
          \<not> is_ready m \<and> now - last_seen m > AUTO_READY_TIMEOUT \<longrightarrow>
            map_option is_ready (get_member db' sid (member_id m)) = Some True)
    \<and> (all_ready st \<longleftrightarrow> ready st = total st \<and> total st > 0)
    \<and> (get_active_members db sid = [] \<longrightarrow> \<not> all_ready st)"
proof -
  let ?ms = "get_active_members db sid"
  let ?ids = "member_id ` {m \<in> set ?ms. stale now m}"
  have st: "st = \<lparr>ready = length (filter (\<lambda>m. is_ready m \<or> stale now m) ?ms),
                  total = length ?ms,
                  all_ready = (length (filter (\<lambda>m. is_ready m \<or> stale now m) ?ms) = length ?ms
                               \<and> length ?ms > 0)\<rparr>"
    and db': "db' = promote sid now ?ids db"
    using assms by (simp_all add: get_ready_status_eq Let_def)
  have cnt: "(\<lambda>m. is_ready m \<or> stale now m) = (\<lambda>m. is_ready m \<or> now - last_seen m > AUTO_READY_TIMEOUT)"
    by (auto simp: stale_def)
  have mut: "map_option is_ready (get_member db' sid (member_id m)) = Some True"
    if m: "m \<in> set ?ms" and s: "\<not> is_ready m \<and> now - last_seen m > AUTO_READY_TIMEOUT" for m
  proof -
    have row: "m \<in> set (members db)" "of_session m = sid"
      using active_member_row [OF m] by simp_all
    then obtain m0 where m0: "get_member db sid (member_id m) = Some m0"
      using get_member_exists [of m db] by auto
    have "member_id m \<in> ?ids"
      using m s by (auto simp: stale_def)
    then show ?thesis
      using get_member_Some [OF m0] by (simp add: db' get_member_promote m0)
  qed
  show ?thesis
    using mut by (auto simp: st cnt AUTO_READY_TIMEOUT_def)
qed

theorem get_ready_status_auto_ready_witness:
  "get_ready_status stale_pair (str ''S'') 1000
     = (\<lparr>ready = 1, total = 2, all_ready = False\<rparr>,
        set_member_ready stale_pair (str ''S'') (str ''B'') True 1000)
   \<and> map_option is_ready (get_member stale_pair (str ''S'') (str ''B'')) = Some False
   \<and> map_option is_ready (get_member
        (set_member_ready stale_pair (str ''S'') (str ''B'') True 1000) (str ''S'') (str ''B''))
       = Some True"
proof -
  have e: "get_ready_status stale_pair (str ''S'') 1000
     = (\<lparr>ready = 1, total = 2, all_ready = False\<rparr>,
        set_member_ready stale_pair (str ''S'') (str ''B'') True 1000)"
    by (simp add: get_ready_status_def ready_step_def AUTO_READY_TIMEOUT_def
        store_defs fixture_defs)
  have b: "new_member (str ''S'') (str ''B'') False 0 \<in> set (get_active_members stale_pair (str ''S''))"
    by (simp add: store_defs fixture_defs)
  show ?thesis
    using get_ready_status_auto_ready [OF e] b e
    by (auto simp: AUTO_READY_TIMEOUT_def store_defs fixture_defs)
qed


subsection \<open>Phase state machine\<close>

lemma get_session_Some:
  "get_session db sid = Some r \<Longrightarrow> session_id r = sid \<and> r \<in> set (sessions db)"
  by (auto simp: get_session_def find_Some_iff)

lemma all_member_row:
  "m \<in> set (get_all_members db sid) \<Longrightarrow> m \<in> set (members db) \<and> of_session m = sid"
  by (simp add: get_all_members_def)

lemma get_session_set_session_phase:
  "map_option phase (get_session (set_session_phase db sid ph now) sid')
     = map_option (\<lambda>p. if sid' = sid then ph else p) (map_option phase (get_session db sid'))"
  by (cases "get_session db sid'")
     (auto simp: set_session_phase_def get_session_update_sessions dest: get_session_Some)

lemma check_no_session:
  "get_session db sid = None \<Longrightarrow> check_and_advance_phase db sid now = (None, db)"
  by (simp add: check_and_advance_phase_def)

lemma check_not_all_ready:
  assumes "get_ready_status db sid now = (st, db1)" "\<not> all_ready st"
  shows "fst (check_and_advance_phase db sid now) = None"
    and "get_session db sid \<noteq> None \<Longrightarrow> snd (check_and_advance_phase db sid now) = db1"
    and "map_option phase (get_session (snd (check_and_advance_phase db sid now)) sid')
         = map_option phase (get_session db sid')"
proof -
  have db1: "db1 = promote sid now (member_id ` {m \<in> set (get_active_members db sid). stale now m}) db"
    using assms(1) by (simp add: get_ready_status_eq Let_def)
  show "fst (check_and_advance_phase db sid now) = None"
    using assms by (simp add: check_and_advance_phase_def split: option.splits)
  show "get_session db sid \<noteq> None \<Longrightarrow> snd (check_and_advance_phase db sid now) = db1"
    using assms by (auto simp: check_and_advance_phase_def split: option.splits)
  show "map_option phase (get_session (snd (check_and_advance_phase db sid now)) sid')
         = map_option phase (get_session db sid')"
    using assms by (auto simp: check_and_advance_phase_def db1 get_session_promote split: option.splits)
qed

lemma get_ready_status_unchanged:
  assumes "get_ready_status db sid now = (st, db1)"
    and "list_all (\<lambda>m. is_ready m \<or> now - last_seen m \<le> AUTO_READY_TIMEOUT) (get_active_members db sid)"
  shows "db1 = db"
proof -
  have "{m \<in> set (get_active_members db sid). stale now m} = {}"
    using assms(2) by (auto simp: list_all_iff stale_def)
  then show ?thesis
    using assms(1) by (simp add: get_ready_status_eq Let_def promote_def)
qed

lemma all_ready_after:
  assumes "get_ready_status db sid now = (st, db1)" "all_ready st"
  shows "list_all is_ready (get_active_members db1 sid)"
    and "map member_id (get_active_members db1 sid) = map member_id (get_active_members db sid)"
    and "get_active_members db sid \<noteq> []"
proof -
  let ?ms = "get_active_members db sid"
  let ?ids = "member_id ` {m \<in> set ?ms. stale now m}"
  have db1: "db1 = promote sid now ?ids db"
    and all: "length (filter (\<lambda>m. is_ready m \<or> stale now m) ?ms) = length ?ms" 
    and ne: "length ?ms > 0"
    using assms by (auto simp: get_ready_status_eq Let_def)
  have "\<forall>m \<in> set ?ms. is_ready m \<or> stale now m"
    using all by (metis (mono_tags, lifting) filter_id_conv length_filter_less less_irrefl_nat)
  then show "list_all is_ready (get_active_members db1 sid)"
    by (auto simp: db1 get_active_members_promote list_all_iff dest: active_member_row)
  show "map member_id (get_active_members db1 sid) = map member_id ?ms"
    by (simp add: db1 get_active_members_promote o_def if_distrib cong: if_cong)
  show "?ms \<noteq> []" using ne by simp
qed

lemma check_adding:
  assumes "get_ready_status db sid now = (st, db1)" "all_ready st"
    and "get_session db sid = Some s" "phase s = ADDING"
  shows "fst (check_and_advance_phase db sid now) = Some ACCEPTING"
    and "map_option phase (get_session (snd (check_and_advance_phase db sid now)) sid) = Some ACCEPTING"
    and "list_all (\<lambda>m. \<not> is_ready m) (get_all_members (snd (check_and_advance_phase db sid now)) sid)"
    and "map member_id (get_active_members (snd (check_and_advance_phase db sid now)) sid)
         = map member_id (get_active_members db sid)"
proof -
  have db1: "db1 = promote sid now (member_id ` {m \<in> set (get_active_members db sid). stale now m}) db"
    using assms(1) by (simp add: get_ready_status_eq Let_def)
  have r: "check_and_advance_phase db sid now
           = (Some ACCEPTING, set_session_phase (reset_all_ready_status db1 sid) sid ACCEPTING now)"
    using assms by (simp add: check_and_advance_phase_def)
  show "fst (check_and_advance_phase db sid now) = Some ACCEPTING"
    by (simp add: r)
  have "get_session db1 sid \<noteq> None"
    using assms(3) by (simp add: db1 get_session_promote_None)
  then show "map_option phase (get_session (snd (check_and_advance_phase db sid now)) sid) = Some ACCEPTING"
    by (auto simp: r get_session_set_session_phase reset_all_ready_status_def)
  show "list_all (\<lambda>m. \<not> is_ready m) (get_all_members (snd (check_and_advance_phase db sid now)) sid)"
    by (auto simp: r set_session_phase_def reset_all_ready_status_def
        get_all_members_update_members list_all_iff dest: all_member_row)
  show "map member_id (get_active_members (snd (check_and_advance_phase db sid now)) sid)
         = map member_id (get_active_members db sid)"
    using all_ready_after(2) [OF assms(1,2)]
    by (simp add: r set_session_phase_def reset_all_ready_status_def
        get_active_members_update_members o_def if_distrib cong: if_cong)
qed

lemma check_accepting:
  assumes "get_ready_status db sid now = (st, db1)" "all_ready st"
    and "get_session db sid = Some s" "phase s = ACCEPTING"
  shows "fst (check_and_advance_phase db sid now) = Some RESULT"
    and "map_option phase (get_session (snd (check_and_advance_phase db sid now)) sid) = Some RESULT"
    and "members (snd (check_and_advance_phase db sid now)) = members db1"
    and "list_all is_ready (get_active_members (snd (check_and_advance_phase db sid now)) sid)"
proof -
  have db1: "db1 = promote sid now (member_id ` {m \<in> set (get_active_members db sid). stale now m}) db"
    using assms(1) by (simp add: get_ready_status_eq Let_def)
  have r: "check_and_advance_phase db sid now = (Some RESULT, set_session_phase db1 sid RESULT now)"
    using assms by (simp add: check_and_advance_phase_def)
  show "fst (check_and_advance_phase db sid now) = Some RESULT"
    by (simp add: r)
  have "get_session db1 sid \<noteq> None"
    using assms(3) by (simp add: db1 get_session_promote_None)
  then show "map_option phase (get_session (snd (check_and_advance_phase db sid now)) sid) = Some RESULT"
    by (auto simp: r get_session_set_session_phase)
  show "members (snd (check_and_advance_phase db sid now)) = members db1"
    by (simp add: r set_session_phase_def)
  show "list_all is_ready (get_active_members (snd (check_and_advance_phase db sid now)) sid)"
    using all_ready_after(1) [OF assms(1,2)] by (simp add: r set_session_phase_def)
qed

lemma check_result:
  assumes "get_session db sid = Some s" "phase s = RESULT"
  shows "fst (check_and_advance_phase db sid now) = None"
    and "map_option phase (get_session (snd (check_and_advance_phase db sid now)) sid) = Some RESULT"
proof -
  obtain st db1 where g: "get_ready_status db sid now = (st, db1)"
    by (cases "get_ready_status db sid now")
  have db1: "db1 = promote sid now (member_id ` {m \<in> set (get_active_members db sid). stale now m}) db"
    using g by (simp add: get_ready_status_eq Let_def)
  have r: "check_and_advance_phase db sid now = (None, db1)"
    using assms g by (simp add: check_and_advance_phase_def)
  show "fst (check_and_advance_phase db sid now) = None"
    by (simp add: r)
  show "map_option phase (get_session (snd (check_and_advance_phase db sid now)) sid) = Some RESULT"
    using assms by (simp add: r db1 get_session_promote)
qed

lemma get_ready_status_store:
  assumes "get_ready_status db sid now = (st, db1)"
  shows "members db1 =
           map (\<lambda>m. if of_session m = sid
                        \<and> member_id m \<in> member_id ` {m \<in> set (get_active_members db sid).
                              \<not> is_ready m \<and> now - last_seen m > AUTO_READY_TIMEOUT}
                     then m\<lparr>is_ready := True, last_seen := now\<rparr> else m) (members db)"
    and "sessions db1 =
           (if {m \<in> set (get_active_members db sid).
                  \<not> is_ready m \<and> now - last_seen m > AUTO_READY_TIMEOUT} = {}
            then sessions db
            else map (\<lambda>r. if session_id r = sid then r\<lparr>last_activity := now\<rparr> else r)
                   (sessions db))"
proof -
  have s: "{m \<in> set (get_active_members db sid). stale now m}
           = {m \<in> set (get_active_members db sid).
                \<not> is_ready m \<and> now - last_seen m > AUTO_READY_TIMEOUT}"
    by (simp add: stale_def)
  have db1: "db1 = promote sid now (member_id ` {m \<in> set (get_active_members db sid).
                \<not> is_ready m \<and> now - last_seen m > AUTO_READY_TIMEOUT}) db"
    using assms by (simp add: get_ready_status_eq Let_def s)
  show "members db1 =
           map (\<lambda>m. if of_session m = sid
                        \<and> member_id m \<in> member_id ` {m \<in> set (get_active_members db sid).
                              \<not> is_ready m \<and> now - last_seen m > AUTO_READY_TIMEOUT}
                     then m\<lparr>is_ready := True, last_seen := now\<rparr> else m) (members db)"
    unfolding db1 promote_def
    by (simp add: update_members_def update_sessions_def del: image_is_empty)
  show "sessions db1 =
           (if {m \<in> set (get_active_members db sid).
                  \<not> is_ready m \<and> now - last_seen m > AUTO_READY_TIMEOUT} = {}
            then sessions db
            else map (\<lambda>r. if session_id r = sid then r\<lparr>last_activity := now\<rparr> else r)
                   (sessions db))"
  proof (cases "{m \<in> set (get_active_members db sid).
                  \<not> is_ready m \<and> now - last_seen m > AUTO_READY_TIMEOUT} = {}")
    case True
    then show ?thesis
      unfolding db1 promote_def by simp
  next
    case False
    then show ?thesis
      unfolding db1 promote_def
      by (auto simp: update_members_def update_sessions_def)
  qed
qed

lemma check_store:
  assumes "get_ready_status db sid now = (st, db1)" "get_session db sid = Some s"
  shows "\<not> all_ready st \<or> phase s = RESULT \<Longrightarrow> snd (check_and_advance_phase db sid now) = db1"
    and "all_ready st \<Longrightarrow> phase s = ADDING \<Longrightarrow>
         members (snd (check_and_advance_phase db sid now))
           = map (\<lambda>m. if of_session m = sid then m\<lparr>is_ready := False\<rparr> else m) (members db1)
         \<and> sessions (snd (check_and_advance_phase db sid now))
           = map (\<lambda>r. if session_id r = sid then r\<lparr>phase := ACCEPTING, last_activity := now\<rparr>
                       else r) (sessions db1)"
    and "all_ready st \<Longrightarrow> phase s = ACCEPTING \<Longrightarrow>
         members (snd (check_and_advance_phase db sid now)) = members db1
         \<and> sessions (snd (check_and_advance_phase db sid now))
           = map (\<lambda>r. if session_id r = sid then r\<lparr>phase := RESULT, last_activity := now\<rparr>
                       else r) (sessions db1)"
  using assms
  by (auto simp: check_and_advance_phase_def set_session_phase_def reset_all_ready_status_def
      update_members_def update_sessions_def)

text \<open>
  C2 (amended). \<open>check_and_advance_phase\<close> returns none and leaves the store as it is when
  the session does not exist. Otherwise it first runs \<open>get_ready_status\<close>, which leaves
  the store as it was except that every row of the session whose member id is that of an
  active member that is not ready and was last seen more than 120 seconds ago gets
  \<open>is_ready\<close> true and \<open>last_seen\<close> the current time, and that, when there is such a
  member, the session's \<open>last_activity\<close> is the current time; nothing else is written.
  When readiness is not \<open>all_ready\<close> the result is none, the phase is unchanged and the
  store is this one, which is the store as it was when no active member is stale. When
  \<open>all_ready\<close> holds in phase \<open>ADDING\<close> the result is \<open>ACCEPTING\<close>; on top of that store
  \<open>is_ready\<close> of every member of the session is false, and the session has phase
  \<open>ACCEPTING\<close> and \<open>last_activity\<close> the current time. When \<open>all_ready\<close> holds in phase
  \<open>ACCEPTING\<close> the result is \<open>RESULT\<close>; no member row is written on top of that store, so
  every active member is still ready, and the session has phase \<open>RESULT\<close> and
  \<open>last_activity\<close> the current time. In phase \<open>RESULT\<close> the result is none, the phase
  stays \<open>RESULT\<close> and the store is the one \<open>get_ready_status\<close> leaves.
\<close>

theorem check_and_advance_phase_transitions:
  assumes "get_ready_status db sid now = (st, db1)"
    and "check_and_advance_phase db sid now = (res, db')"
  shows "(get_session db sid = None \<longrightarrow> res = None \<and> db' = db)
    \<and> (\<not> all_ready st \<longrightarrow>
          res = None
          \<and> map_option phase (get_session db' sid) = map_option phase (get_session db sid)
          \<and> (get_session db sid \<noteq> None \<longrightarrow> db' = db1)
          \<and> (list_all (\<lambda>m. is_ready m \<or> now - last_seen m \<le> AUTO_READY_TIMEOUT)
                (get_active_members db sid) \<longrightarrow> db' = db))
    \<and> (all_ready st \<and> map_option phase (get_session db sid) = Some ADDING \<longrightarrow>
          res = Some ACCEPTING
          \<and> map_option phase (get_session db' sid) = Some ACCEPTING
          \<and> list_all (\<lambda>m. \<not> is_ready m) (get_all_members db' sid)
          \<and> list_all (\<lambda>m. \<not> is_ready m) (get_active_members db' sid)
          \<and> map member_id (get_active_members db' sid)
              = map member_id (get_active_members db sid))
    \<and> (all_ready st \<and> map_option phase (get_session db sid) = Some ACCEPTING \<longrightarrow>
          res = Some RESULT
          \<and> map_option phase (get_session db' sid) = Some RESULT
          \<and> members db' = members db1
          \<and> list_all is_ready (get_active_members db' sid))
    \<and> (map_option phase (get_session db sid) = Some RESULT \<longrightarrow>
          res = None \<and> map_option phase (get_session db' sid) = Some RESULT)
    \<and> members db1 =
           map (\<lambda>m. if of_session m = sid
                        \<and> member_id m \<in> member_id ` {m \<in> set (get_active_members db sid).
                              \<not> is_ready m \<and> now - last_seen m > AUTO_READY_TIMEOUT}
                     then m\<lparr>is_ready := True, last_seen := now\<rparr> else m) (members db)
    \<and> sessions db1 =
           (if {m \<in> set (get_active_members db sid).
                  \<not> is_ready m \<and> now - last_seen m > AUTO_READY_TIMEOUT} = {}
            then sessions db
            else map (\<lambda>r. if session_id r = sid then r\<lparr>last_activity := now\<rparr> else r)
                   (sessions db))
    \<and> (get_session db sid \<noteq> None
         \<and> (\<not> all_ready st \<or> map_option phase (get_session db sid) = Some RESULT) \<longrightarrow>
          db' = db1)
    \<and> (all_ready st \<and> map_option phase (get_session db sid) = Some ADDING \<longrightarrow>
          members db'
            = map (\<lambda>m. if of_session m = sid then m\<lparr>is_ready := False\<rparr> else m) (members db1)
          \<and> sessions db'
            = map (\<lambda>r. if session_id r = sid
                        then r\<lparr>phase := ACCEPTING, last_activity := now\<rparr> else r)
                (sessions db1))
    \<and> (all_ready st \<and> map_option phase (get_session db sid) = Some ACCEPTING \<longrightarrow>
          sessions db'
            = map (\<lambda>r. if session_id r = sid
                        then r\<lparr>phase := RESULT, last_activity := now\<rparr> else r)
                (sessions db1))"
proof -
  have store: "members db1 =
           map (\<lambda>m. if of_session m = sid
                        \<and> member_id m \<in> member_id ` {m \<in> set (get_active_members db sid).
                              \<not> is_ready m \<and> now - last_seen m > AUTO_READY_TIMEOUT}
                     then m\<lparr>is_ready := True, last_seen := now\<rparr> else m) (members db)
    \<and> sessions db1 =
           (if {m \<in> set (get_active_members db sid).
                  \<not> is_ready m \<and> now - last_seen m > AUTO_READY_TIMEOUT} = {}
            then sessions db
            else map (\<lambda>r. if session_id r = sid then r\<lparr>last_activity := now\<rparr> else r)
                   (sessions db))
    \<and> (get_session db sid \<noteq> None
         \<and> (\<not> all_ready st \<or> map_option phase (get_session db sid) = Some RESULT) \<longrightarrow>
          db' = db1)
    \<and> (all_ready st \<and> map_option phase (get_session db sid) = Some ADDING \<longrightarrow>
          members db'
            = map (\<lambda>m. if of_session m = sid then m\<lparr>is_ready := False\<rparr> else m) (members db1)
          \<and> sessions db'
            = map (\<lambda>r. if session_id r = sid
                        then r\<lparr>phase := ACCEPTING, last_activity := now\<rparr> else r)
                (sessions db1))
    \<and> (all_ready st \<and> map_option phase (get_session db sid) = Some ACCEPTING \<longrightarrow>
          sessions db'
            = map (\<lambda>r. if session_id r = sid
                        then r\<lparr>phase := RESULT, last_activity := now\<rparr> else r)
                (sessions db1))"
  proof -
    have keep: "db' = db1"
      if ex: "get_session db sid \<noteq> None"
        and cond: "\<not> all_ready st \<or> map_option phase (get_session db sid) = Some RESULT"
    proof -
      obtain s where s: "get_session db sid = Some s"
        using ex by auto
      have "\<not> all_ready st \<or> phase s = RESULT"
        using cond s by auto
      then show ?thesis
        using check_store(1) [OF assms(1) s] assms(2) by simp
    qed
    have adding: "members db'
            = map (\<lambda>m. if of_session m = sid then m\<lparr>is_ready := False\<rparr> else m) (members db1)
          \<and> sessions db'
            = map (\<lambda>r. if session_id r = sid
                        then r\<lparr>phase := ACCEPTING, last_activity := now\<rparr> else r)
                (sessions db1)"
      if a: "all_ready st" and p: "map_option phase (get_session db sid) = Some ADDING"
    proof -
      obtain s where s: "get_session db sid = Some s" "phase s = ADDING"
        using p by auto
      show ?thesis
        using check_store(2) [OF assms(1) s(1) a s(2)] assms(2) by simp
    qed
    have accepting: "sessions db'
            = map (\<lambda>r. if session_id r = sid
                        then r\<lparr>phase := RESULT, last_activity := now\<rparr> else r)
                (sessions db1)"
      if a: "all_ready st" and p: "map_option phase (get_session db sid) = Some ACCEPTING"
    proof -
      obtain s where s: "get_session db sid = Some s" "phase s = ACCEPTING"
        using p by auto
      show ?thesis
        using check_store(3) [OF assms(1) s(1) a s(2)] assms(2) by simp
    qed
    show ?thesis
      using get_ready_status_store [OF assms(1)] keep adding accepting by blast
  qed
  have fs: "fst (check_and_advance_phase db sid now) = res"
    "snd (check_and_advance_phase db sid now) = db'"
    using assms(2) by simp_all
  have none: "get_session db sid = None \<Longrightarrow> res = None \<and> db' = db"
    using check_no_session [of db sid now] assms(2) by simp
  have nr: "res = None
          \<and> map_option phase (get_session db' sid) = map_option phase (get_session db sid)
          \<and> (get_session db sid \<noteq> None \<longrightarrow> db' = db1)
          \<and> (list_all (\<lambda>m. is_ready m \<or> now - last_seen m \<le> AUTO_READY_TIMEOUT)
                (get_active_members db sid) \<longrightarrow> db' = db)" if n: "\<not> all_ready st"
  proof -
    have "db' = db"
      if "list_all (\<lambda>m. is_ready m \<or> now - last_seen m \<le> AUTO_READY_TIMEOUT)
            (get_active_members db sid)"
    proof (cases "get_session db sid")
      case None
      then show ?thesis using none by simp
    next
      case (Some s)
      then show ?thesis
        using check_not_all_ready(2) [OF assms(1) n] get_ready_status_unchanged [OF assms(1) that]
        by (simp add: fs)
    qed
    then show ?thesis
      using check_not_all_ready(1,2) [OF assms(1) n] check_not_all_ready(3) [OF assms(1) n, of sid]
        by (simp add: fs)
  qed
  have add: "res = Some ACCEPTING
          \<and> map_option phase (get_session db' sid) = Some ACCEPTING
          \<and> list_all (\<lambda>m. \<not> is_ready m) (get_all_members db' sid)
          \<and> list_all (\<lambda>m. \<not> is_ready m) (get_active_members db' sid)
          \<and> map member_id (get_active_members db' sid)
              = map member_id (get_active_members db sid)"
    if a: "all_ready st" and p: "map_option phase (get_session db sid) = Some ADDING"
  proof -
    obtain s where s: "get_session db sid = Some s" "phase s = ADDING"
      using p by auto
    have "list_all (\<lambda>m. \<not> is_ready m) (get_active_members db' sid)"
      using check_adding(3) [OF assms(1) a s]
      by (simp add: fs get_active_members_def list_all_iff)
    then show ?thesis
      using check_adding [OF assms(1) a s] by (simp add: fs)
  qed
  have acc: "res = Some RESULT
          \<and> map_option phase (get_session db' sid) = Some RESULT
          \<and> members db' = members db1
          \<and> list_all is_ready (get_active_members db' sid)"
    if a: "all_ready st" and p: "map_option phase (get_session db sid) = Some ACCEPTING"
  proof -
    obtain s where s: "get_session db sid = Some s" "phase s = ACCEPTING"
      using p by auto
    show ?thesis
      using check_accepting [OF assms(1) a s] by (simp add: fs)
  qed
  have res: "res = None \<and> map_option phase (get_session db' sid) = Some RESULT"
    if p: "map_option phase (get_session db sid) = Some RESULT"
  proof -
    obtain s where s: "get_session db sid = Some s" "phase s = RESULT"
      using p by auto
    show ?thesis
      using check_result [OF s, of now] by (simp add: fs)
  qed
  show ?thesis
    using none nr add acc res store by blast
qed

theorem check_and_advance_phase_transitions_witness:
  "check_and_advance_phase (solo ADDING) (str ''S'') 1000
     = (Some ACCEPTING,
        set_session_phase
          (reset_all_ready_status
             (set_member_ready (solo ADDING) (str ''S'') (str ''A'') True 1000) (str ''S''))
          (str ''S'') ACCEPTING 1000)
   \<and> map_option phase (get_session
        (snd (check_and_advance_phase (solo ADDING) (str ''S'') 1000)) (str ''S''))
       = Some ACCEPTING
   \<and> list_all (\<lambda>m. \<not> is_ready m) (get_active_members
        (snd (check_and_advance_phase (solo ADDING) (str ''S'') 1000)) (str ''S''))"
proof -
  have g: "get_ready_status (solo ADDING) (str ''S'') 1000
     = (\<lparr>ready = 1, total = 1, all_ready = True\<rparr>,
        set_member_ready (solo ADDING) (str ''S'') (str ''A'') True 1000)"
    by (simp add: get_ready_status_def ready_step_def AUTO_READY_TIMEOUT_def
        store_defs fixture_defs)
  have gs: "get_session (solo ADDING) (str ''S'')
            = Some ((new_session (str ''S'') (str ''A'') 0)\<lparr>phase := ADDING\<rparr>)"
    by (simp add: get_session_def solo_def new_session_def)
  have c: "check_and_advance_phase (solo ADDING) (str ''S'') 1000
     = (Some ACCEPTING,
        set_session_phase
          (reset_all_ready_status
             (set_member_ready (solo ADDING) (str ''S'') (str ''A'') True 1000) (str ''S''))
          (str ''S'') ACCEPTING 1000)"
    by (simp add: check_and_advance_phase_def g gs new_session_def)
  have p: "map_option phase (get_session (solo ADDING) (str ''S'')) = Some ADDING"
    by (simp add: gs new_session_def)
  show ?thesis
    using check_and_advance_phase_transitions [OF g c] p by (simp add: c)
qed

theorem check_and_advance_phase_changes_store:
  "\<not> all_ready (fst (get_ready_status stale_pair (str ''S'') 1000))
   \<and> fst (check_and_advance_phase stale_pair (str ''S'') 1000) = None
   \<and> map_option is_ready (get_member stale_pair (str ''S'') (str ''B'')) = Some False
   \<and> map_option is_ready (get_member
        (snd (check_and_advance_phase stale_pair (str ''S'') 1000)) (str ''S'') (str ''B''))
       = Some True
   \<and> snd (check_and_advance_phase stale_pair (str ''S'') 1000) \<noteq> stale_pair"
proof -
  have g: "get_ready_status stale_pair (str ''S'') 1000
     = (\<lparr>ready = 1, total = 2, all_ready = False\<rparr>,
        set_member_ready stale_pair (str ''S'') (str ''B'') True 1000)"
    by (simp add: get_ready_status_def ready_step_def AUTO_READY_TIMEOUT_def
        store_defs fixture_defs)
  have gs: "get_session stale_pair (str ''S'') = Some (new_session (str ''S'') (str ''A'') 0)"
    by (simp add: get_session_def stale_pair_def new_session_def)
  have c: "check_and_advance_phase stale_pair (str ''S'') 1000
     = (None, set_member_ready stale_pair (str ''S'') (str ''B'') True 1000)"
    by (simp add: check_and_advance_phase_def g gs)
  have b0: "map_option is_ready (get_member stale_pair (str ''S'') (str ''B'')) = Some False"
    by (simp add: store_defs fixture_defs)
  have b1: "map_option is_ready (get_member
        (set_member_ready stale_pair (str ''S'') (str ''B'') True 1000) (str ''S'') (str ''B''))
       = Some True"
    by (simp add: set_member_ready_def store_defs fixture_defs)
  have "set_member_ready stale_pair (str ''S'') (str ''B'') True 1000 \<noteq> stale_pair"
    using b0 b1 by auto
  then show ?thesis
    by (simp add: g c b0 b1)
qed


subsection \<open>Restart barrier\<close>

lemma update_sessions_absent:
  "get_session db sid = None \<Longrightarrow> update_sessions sid f db = db"
proof -
  assume "get_session db sid = None"
  then have "map (\<lambda>r. if session_id r = sid then f r else r) (sessions db) = sessions db"
    by (intro map_idI) (auto simp: get_session_def find_None_iff)
  then show ?thesis
    by (simp add: update_sessions_def)
qed

lemma get_restart_votes_add:
  "get_restart_votes (add_restart_vote db sid mid) sid =
     (if get_session db sid = None then []
      else if mid \<in> set (get_restart_votes db sid) then get_restart_votes db sid
      else get_restart_votes db sid @ [mid])"
  by (cases "get_session db sid")
     (auto simp: add_restart_vote_def get_restart_votes_def Let_def get_session_update_sessions
        update_sessions_absent dest: get_session_Some)

lemma add_restart_vote_idem:
  "add_restart_vote (add_restart_vote db sid mid) sid mid = add_restart_vote db sid mid"
proof (cases "get_session db sid")
  case None
  then show ?thesis
    by (simp add: add_restart_vote_def Let_def update_sessions_absent)
next
  case (Some r)
  then have "mid \<in> set (get_restart_votes (add_restart_vote db sid mid) sid)"
    by (simp add: get_restart_votes_add)
  then show ?thesis
    by (simp add: add_restart_vote_def [of "add_restart_vote db sid mid"] Let_def)
qed

lemma get_active_members_add_restart_vote [simp]:
  "get_active_members (add_restart_vote db sid mid) sid' = get_active_members db sid'"
  by (simp add: add_restart_vote_def Let_def)

lemma get_session_add_restart_vote_None:
  "get_session (add_restart_vote db sid mid) sid' = None \<longleftrightarrow> get_session db sid' = None"
  by (simp add: add_restart_vote_def Let_def get_session_update_sessions)

lemma start_fresh_rows:
  "members (start_fresh db sid now) =
     map (\<lambda>m. if of_session m = sid
               then m\<lparr>items := [], is_ready := False, accepted_items := [], is_observer := False\<rparr>
               else m) (members db)"
  "sessions (start_fresh db sid now) =
     map (\<lambda>r. if session_id r = sid
               then r\<lparr>excluded_items := [], restart_votes := [], phase := ADDING,
                      last_activity := now\<rparr>
               else r) (sessions db)"
  by (auto simp: start_fresh_def set_session_phase_def promote_observers_def
      clear_restart_votes_def clear_excluded_items_def set_excluded_items_def
      reset_all_accepted_items_def reset_all_ready_status_def clear_all_items_def
      update_sessions_def update_members_def)

lemma vote_restart_eq:
  "vote_restart db sid mid =
     (\<lparr>votes = length (get_restart_votes (add_restart_vote db sid mid) sid),
       vote_total = length (get_active_members db sid),
       all_voted = (member_id ` set (get_active_members db sid)
                     \<subseteq> set (get_restart_votes (add_restart_vote db sid mid) sid))\<rparr>,
      add_restart_vote db sid mid)"
  by (auto simp: vote_restart_def Let_def list_all_iff)

lemma two_votes_not_unanimous:
  assumes "distinct (map member_id ms)" "length ms = 3"
  shows "\<not> member_id ` set ms \<subseteq> {x, y}"
proof
  assume "member_id ` set ms \<subseteq> {x, y}"
  then have "card (member_id ` set ms) \<le> card {x, y}"
    by (intro card_mono) simp_all
  moreover have "card (member_id ` set ms) = 3"
    using assms distinct_card [of "map member_id ms"] by simp
  moreover have "card {x, y} \<le> 2"
    by (simp add: card_insert_if)
  ultimately show False by simp
qed

lemma start_fresh_session:
  "get_excluded_items (start_fresh db sid now) sid = []"
  "get_restart_votes (start_fresh db sid now) sid = []"
  "map_option phase (get_session (start_fresh db sid now) sid)
     = map_option (\<lambda>p. ADDING) (get_session db sid)"
proof -
  let ?f = "\<lambda>r. if session_id r = sid
               then r\<lparr>excluded_items := [], restart_votes := [], phase := ADDING,
                      last_activity := now\<rparr>
               else r"
  have g: "get_session (start_fresh db sid now) sid = map_option ?f (get_session db sid)"
    by (simp add: get_session_def start_fresh_rows find_map_keep)
  show "get_excluded_items (start_fresh db sid now) sid = []"
    by (cases "get_session db sid") (auto simp: get_excluded_items_def g dest: get_session_Some)
  show "get_restart_votes (start_fresh db sid now) sid = []"
    by (cases "get_session db sid") (auto simp: get_restart_votes_def g dest: get_session_Some)
  show "map_option phase (get_session (start_fresh db sid now) sid)
     = map_option (\<lambda>p. ADDING) (get_session db sid)"
    by (cases "get_session db sid") (auto simp: g dest: get_session_Some)
qed

lemma start_fresh_members:
  "get_all_members (start_fresh db sid now) sid =
     map (\<lambda>m. m\<lparr>items := [], is_ready := False, accepted_items := [], is_observer := False\<rparr>)
       (get_all_members db sid)"
  "get_active_members (start_fresh db sid now) sid = get_all_members (start_fresh db sid now) sid"
proof -
  show a: "get_all_members (start_fresh db sid now) sid =
     map (\<lambda>m. m\<lparr>items := [], is_ready := False, accepted_items := [], is_observer := False\<rparr>)
       (get_all_members db sid)"
    by (simp add: get_all_members_def start_fresh_rows filter_map_keep)
  show "get_active_members (start_fresh db sid now) sid = get_all_members (start_fresh db sid now) sid"
    unfolding get_active_members_def a by (simp add: filter_map o_def)
qed

text \<open>
  C6. \<open>vote_restart\<close> is idempotent per member: a second vote of the same member changes
  neither the store nor the result. \<open>all_voted\<close> holds exactly when the id of every
  active member is among the restart votes, to which the vote adds the member's id. With
  three active members (of distinct ids) and no votes yet, \<open>all_voted\<close> is false after
  one vote and after two, whoever votes, and true after a third when the three voters are the
  three members. \<open>start_fresh\<close> clears the items, the ready flag, the accepted items and
  the observer flag of every member of the session, clears the excluded items and the
  restart votes, and sets the phase to \<open>ADDING\<close>; all members are then active.
\<close>

theorem vote_restart_unanimity_start_fresh:
  "vote_restart (snd (vote_restart db sid mid)) sid mid = vote_restart db sid mid
   \<and> (all_voted (fst (vote_restart db sid mid)) \<longleftrightarrow>
        member_id ` set (get_active_members db sid)
          \<subseteq> set (get_restart_votes (snd (vote_restart db sid mid)) sid))
   \<and> vote_total (fst (vote_restart db sid mid)) = length (get_active_members db sid)
   \<and> (get_session db sid \<noteq> None \<longrightarrow>
        set (get_restart_votes (snd (vote_restart db sid mid)) sid)
          = insert mid (set (get_restart_votes db sid)))
   \<and> (get_session db sid \<noteq> None \<and> get_restart_votes db sid = []
        \<and> distinct (map member_id (get_active_members db sid))
        \<and> length (get_active_members db sid) = 3 \<longrightarrow>
        \<not> all_voted (fst (vote_restart db sid x))
        \<and> \<not> all_voted (fst (vote_restart (snd (vote_restart db sid x)) sid y))
        \<and> (member_id ` set (get_active_members db sid) = {x, y, z} \<longrightarrow>
             all_voted (fst (vote_restart
               (snd (vote_restart (snd (vote_restart db sid x)) sid y)) sid z))))
   \<and> members (start_fresh db sid now) =
        map (\<lambda>m. if of_session m = sid
                  then m\<lparr>items := [], is_ready := False, accepted_items := [],
                         is_observer := False\<rparr>
                  else m) (members db)
   \<and> sessions (start_fresh db sid now) =
        map (\<lambda>r. if session_id r = sid
                  then r\<lparr>excluded_items := [], restart_votes := [], phase := ADDING,
                         last_activity := now\<rparr>
                  else r) (sessions db)
   \<and> list_all (\<lambda>m. items m = [] \<and> \<not> is_ready m \<and> accepted_items m = [] \<and> \<not> is_observer m)
        (get_all_members (start_fresh db sid now) sid)
   \<and> map member_id (get_all_members (start_fresh db sid now) sid)
        = map member_id (get_all_members db sid)
   \<and> get_active_members (start_fresh db sid now) sid
        = get_all_members (start_fresh db sid now) sid
   \<and> get_excluded_items (start_fresh db sid now) sid = []
   \<and> get_restart_votes (start_fresh db sid now) sid = []
   \<and> map_option phase (get_session (start_fresh db sid now) sid)
        = map_option (\<lambda>p. ADDING) (get_session db sid)"
proof -
  have idem: "vote_restart (snd (vote_restart db sid mid)) sid mid = vote_restart db sid mid"
    by (simp add: vote_restart_eq add_restart_vote_idem)
  have three: "\<not> all_voted (fst (vote_restart db sid x))
        \<and> \<not> all_voted (fst (vote_restart (snd (vote_restart db sid x)) sid y))
        \<and> (member_id ` set (get_active_members db sid) = {x, y, z} \<longrightarrow>
             all_voted (fst (vote_restart
               (snd (vote_restart (snd (vote_restart db sid x)) sid y)) sid z)))"
    if s: "get_session db sid \<noteq> None" and v: "get_restart_votes db sid = []"
      and d: "distinct (map member_id (get_active_members db sid))"
      and l: "length (get_active_members db sid) = 3"
  proof -
    have s1: "get_session (add_restart_vote db sid x) sid \<noteq> None"
      using s by (simp add: get_session_add_restart_vote_None)
    then have s2: "get_session (add_restart_vote (add_restart_vote db sid x) sid y) sid \<noteq> None"
      by (simp add: get_session_add_restart_vote_None)
    have v1: "set (get_restart_votes (add_restart_vote db sid x) sid) = {x}"
      using s v by (simp add: get_restart_votes_add)
    have v2: "set (get_restart_votes (add_restart_vote (add_restart_vote db sid x) sid y) sid)
              = {x, y}"
      using s1 v1 by (auto simp: get_restart_votes_add)
    have v3: "set (get_restart_votes (add_restart_vote
                (add_restart_vote (add_restart_vote db sid x) sid y) sid z) sid) = {x, y, z}"
      using s2 v2 by (auto simp: get_restart_votes_add)
    have n1: "\<not> member_id ` set (get_active_members db sid) \<subseteq> {x}"
      using two_votes_not_unanimous [OF d l, of x x] by simp
    have n2: "\<not> member_id ` set (get_active_members db sid) \<subseteq> {x, y}"
      using two_votes_not_unanimous [OF d l] .
    show ?thesis
      using n1 n2 by (simp add: vote_restart_eq v1 v2 v3)
  qed
  have cleared: "list_all (\<lambda>m. items m = [] \<and> \<not> is_ready m \<and> accepted_items m = [] \<and> \<not> is_observer m)
        (get_all_members (start_fresh db sid now) sid)"
    by (simp add: start_fresh_members list_all_iff)
  have ids: "map member_id (get_all_members (start_fresh db sid now) sid)
        = map member_id (get_all_members db sid)"
    by (simp add: start_fresh_members o_def)
  have ins: "get_session db sid \<noteq> None \<Longrightarrow>
        set (get_restart_votes (snd (vote_restart db sid mid)) sid)
          = insert mid (set (get_restart_votes db sid))"
    by (auto simp: vote_restart_eq get_restart_votes_add)
  show ?thesis
    using idem three cleared ids ins
    by (simp add: vote_restart_eq start_fresh_rows start_fresh_members(2) start_fresh_session)
qed

theorem vote_restart_unanimity_start_fresh_witness:
  "\<not> all_voted (fst (vote_restart trio (str ''S'') (str ''A'')))
   \<and> \<not> all_voted (fst (vote_restart (snd (vote_restart trio (str ''S'') (str ''A'')))
         (str ''S'') (str ''B'')))
   \<and> all_voted (fst (vote_restart
         (snd (vote_restart (snd (vote_restart trio (str ''S'') (str ''A'')))
            (str ''S'') (str ''B''))) (str ''S'') (str ''C'')))
   \<and> map member_id (get_active_members (start_fresh trio (str ''S'') 7) (str ''S''))
       = [str ''A'', str ''B'', str ''C'', str ''D'']
   \<and> map_option phase (get_session (start_fresh trio (str ''S'') 7) (str ''S'')) = Some ADDING"
proof -
  have h: "get_session trio (str ''S'') \<noteq> None \<and> get_restart_votes trio (str ''S'') = []
        \<and> distinct (map member_id (get_active_members trio (str ''S'')))
        \<and> length (get_active_members trio (str ''S'')) = 3"
    by (simp add: store_defs fixture_defs)
  have m: "member_id ` set (get_active_members trio (str ''S'')) = {str ''A'', str ''B'', str ''C''}"
    by (simp add: store_defs fixture_defs)
  have a: "map member_id (get_all_members trio (str ''S''))
           = [str ''A'', str ''B'', str ''C'', str ''D'']"
    by (simp add: store_defs fixture_defs)
  have p: "map_option (\<lambda>p. ADDING) (get_session trio (str ''S'')) = Some ADDING"
    by (simp add: store_defs fixture_defs)
  show ?thesis
    using vote_restart_unanimity_start_fresh
      [of trio "str ''S''" "str ''A''" "str ''A''" "str ''B''" "str ''C''" 7] h m a p
    by (simp add: str_def)
qed


subsection \<open>Selection\<close>

lemma groups_append_items:
  "set (concat (map snd (groups_append k v g))) = insert v (set (concat (map snd g)))"
proof (induction k v g rule: groups_append.induct)
  case (1 acceptors original)
  then show ?case by simp
next
  case (2 acceptors original k vs groups)
  show ?case
  proof (cases "k = acceptors")
    case True
    then show ?thesis by simp
  next
    case False
    then show ?thesis using 2 by (simp add: insert_commute Un_insert_right [symmetric] del: Un_insert_right)
  qed
qed

lemma groups_append_lists:
  "list_all (\<lambda>e. snd e \<noteq> []) g \<Longrightarrow> list_all (\<lambda>e. snd e \<noteq> []) (groups_append k v g)"
  by (induction k v g rule: groups_append.induct) simp_all

lemma fold_group_step_items:
  "set (concat (map snd (fold (group_step excl acc) n2o g)))
     \<subseteq> set (concat (map snd g)) \<union> {v \<in> snd ` set n2o. \<not> list_ex (items_equal v) excl}"
proof (induction n2o arbitrary: g)
  case Nil
  then show ?case by simp
next
  case (Cons e n2o)
  obtain k v where e: "e = (k, v)" by (cases e)
  have "set (concat (map snd (group_step excl acc e g)))
          \<subseteq> set (concat (map snd g)) \<union> {x. x = v \<and> \<not> list_ex (items_equal v) excl}"
  proof (cases "list_ex (items_equal v) excl")
    case True
    then show ?thesis by (simp add: group_step_def e)
  next
    case False
    show ?thesis
    proof (cases "acc k = {}")
      case True
      then show ?thesis using False by (auto simp: group_step_def e)
    next
      case nonempty: False
      have "group_step excl acc e g = groups_append (acc k) v g"
        using False nonempty by (simp add: group_step_def e)
      then show ?thesis
        using False by (simp only: groups_append_items) auto
    qed
  qed
  moreover have "{x \<in> snd ` set (e # n2o). \<not> list_ex (items_equal x) excl}
      = {x. x = v \<and> \<not> list_ex (items_equal v) excl}
        \<union> {x \<in> snd ` set n2o. \<not> list_ex (items_equal x) excl}"
    by (auto simp: e)
  ultimately show ?case
    using Cons.IH [of "group_step excl acc e g"] by (simp only: fold_simps) blast
qed

lemma fold_group_step_lists:
  "list_all (\<lambda>e. snd e \<noteq> []) g \<Longrightarrow>
   list_all (\<lambda>e. snd e \<noteq> []) (fold (group_step excl acc) n2o g)"
proof (induction n2o arbitrary: g)
  case Nil
  then show ?case by simp
next
  case (Cons e n2o)
  have "list_all (\<lambda>e. snd e \<noteq> []) (group_step excl acc e g)"
    using Cons.prems by (cases e) (simp add: group_step_def Let_def groups_append_lists)
  then show ?case
    using Cons.IH by simp
qed

lemma group_items_not_excluded:
  "x \<in> set (concat (map snd (group_items_by_acceptance db sid))) \<Longrightarrow>
   \<not> list_ex (items_equal x) (get_excluded_items db sid)"
proof -
  obtain n2o acc where c: "collect_acceptances (get_active_members db sid) = (n2o, acc)"
    by (cases "collect_acceptances (get_active_members db sid)")
  assume "x \<in> set (concat (map snd (group_items_by_acceptance db sid)))"
  then have "x \<in> set (concat (map snd (fold (group_step (get_excluded_items db sid) acc) n2o [])))"
    by (simp add: group_items_by_acceptance_def Let_def c)
  then show ?thesis
    using fold_group_step_items [of "get_excluded_items db sid" acc n2o "[]"] by auto
qed

lemma group_items_lists:
  "list_all (\<lambda>e. snd e \<noteq> []) (group_items_by_acceptance db sid)"
proof -
  obtain n2o acc where c: "collect_acceptances (get_active_members db sid) = (n2o, acc)"
    by (cases "collect_acceptances (get_active_members db sid)")
  show ?thesis
    by (simp add: group_items_by_acceptance_def Let_def c fold_group_step_lists)
qed

lemma getitem_fair:
  assumes "xs \<noteq> []"
  shows "\<exists>x. getitem xs (fair_random_select (int (length xs)) r) = Inr x \<and> x \<in> set xs"
proof -
  let ?n = "int (length xs)"
  have n: "0 < ?n" using assms by simp
  define i where "i = r mod ?n"
  have i: "0 \<le> i" "i < ?n"
    using n by (simp_all add: i_def)
  have f: "fair_random_select ?n r = i"
    using n by (simp add: fair_random_select_def i_def)
  have "getitem xs i = Inr (xs ! nat i)"
    using i by (simp add: getitem_def)
  moreover have "nat i < length xs"
    using i by linarith
  ultimately show ?thesis
    unfolding f by (simp only: nth_mem) simp
qed

lemma pick_item_in:
  assumes "groups \<noteq> []" "list_all (\<lambda>e. snd e \<noteq> []) groups"
  shows "\<exists>x. pick_item groups r1 r2 = Inr x \<and> x \<in> set (concat (map snd groups))"
proof -
  let ?gl = "map snd groups"
  have "?gl \<noteq> []" using assms(1) by simp
  from getitem_fair [OF this, of r1]
  obtain g where g: "getitem ?gl (fair_random_select (int (length ?gl)) r1) = Inr g"
    and gin: "g \<in> set ?gl"
    by (elim exE conjE)
  have "g \<noteq> []"
    using gin assms(2) by (auto simp: list_all_iff)
  from getitem_fair [OF this, of r2]
  obtain x where x: "getitem g (fair_random_select (int (length g)) r2) = Inr x"
    and xin: "x \<in> set g"
    by (elim exE conjE)
  have "pick_item groups r1 r2 = Inr x"
    unfolding pick_item_def Let_def g by (simp add: x)
  moreover have "x \<in> set (concat ?gl)"
    using gin xin by auto
  ultimately show ?thesis by blast
qed

lemma select_item_nonempty:
  assumes "group_items_by_acceptance db sid \<noteq> []"
  shows "\<exists>x. select_item db sid r1 r2 = (Inr (Some x), db)
             \<and> x \<in> set (concat (map snd (group_items_by_acceptance db sid)))"
proof -
  from pick_item_in [OF assms group_items_lists, of r1 r2]
  obtain x where x: "pick_item (group_items_by_acceptance db sid) r1 r2 = Inr x"
    and xin: "x \<in> set (concat (map snd (group_items_by_acceptance db sid)))"
    by (elim exE conjE)
  have "select_item db sid r1 r2 = (Inr (Some x), db)"
    using assms by (simp add: select_item_def Let_def x)
  then show ?thesis using xin by blast
qed

subsection \<open>The registry of items\<close>

lemma own_item_step_tracks:
  assumes "tracks S st"
  shows "tracks (insert item S) (own_item_step mid item st)"
proof -
  obtain n2o acc where st: "st = (n2o, acc)" by (cases st)
  let ?k = "normalize_item item"
  let ?acc = "acc(?k := insert mid (acc ?k))"
  have wf: "distinct (map fst n2o)"
    and en: "\<forall>e \<in> set n2o. fst e = normalize_item (snd e) \<and> acc (fst e) \<noteq> {}"
    and keys: "fst ` set n2o = normalize_item ` S"
    and vals: "snd ` set n2o \<subseteq> S"
    using assms unfolding tracks_def well_formed_def st list_all_iff fst_conv snd_conv
    by blast+
  have en': "\<forall>e \<in> set n2o. fst e = normalize_item (snd e) \<and> ?acc (fst e) \<noteq> {}"
    using en by (metis fun_upd_apply insert_not_empty)
  show ?thesis
  proof (cases "map_of n2o ?k = None")
    case True
    then have new: "?k \<notin> fst ` set n2o"
      by (simp add: map_of_eq_None_iff)
    have r: "own_item_step mid item st = (n2o @ [(?k, item)], ?acc)"
      using True by (simp add: own_item_step_def st Let_def)
    show ?thesis
      unfolding r tracks_def well_formed_def
      using wf en' keys vals new by (auto simp: list_all_iff)
  next
    case False
    then have old: "?k \<in> fst ` set n2o"
      by (simp add: map_of_eq_None_iff)
    have r: "own_item_step mid item st = (n2o, ?acc)"
      using False by (simp add: own_item_step_def st Let_def)
    show ?thesis
      unfolding r tracks_def well_formed_def
      using wf en' keys vals old by (auto simp: list_all_iff)
  qed
qed

lemma accepted_item_step_tracks:
  assumes "tracks S st"
  shows "tracks S (accepted_item_step mid item st)"
proof -
  obtain n2o acc where st: "st = (n2o, acc)" by (cases st)
  let ?k = "normalize_item item"
  let ?acc = "acc(?k := insert mid (acc ?k))"
  have "tracks S (n2o, ?acc)"
    using assms unfolding tracks_def well_formed_def st list_all_iff fst_conv snd_conv
    by (metis fun_upd_apply insert_not_empty)
  then show ?thesis
    using assms by (simp add: accepted_item_step_def st Let_def)
qed

lemma fold_own_item_step_tracks:
  "tracks S st \<Longrightarrow> tracks (S \<union> set its) (fold (own_item_step mid) its st)"
proof (induction its arbitrary: S st)
  case Nil
  then show ?case by simp
next
  case (Cons item its)
  have "tracks (insert item S \<union> set its) (fold (own_item_step mid) its (own_item_step mid item st))"
    using Cons.IH [OF own_item_step_tracks [OF Cons.prems]] .
  then show ?case by simp
qed

lemma fold_accepted_item_step_tracks:
  "tracks S st \<Longrightarrow> tracks S (fold (accepted_item_step mid) its st)"
  by (induction its arbitrary: st) (simp_all add: accepted_item_step_tracks)

lemma member_step_tracks:
  "tracks S st \<Longrightarrow> tracks (S \<union> set (items m)) (member_step m st)"
  unfolding member_step_def
  by (intro fold_accepted_item_step_tracks fold_own_item_step_tracks)

lemma fold_member_step_tracks:
  "tracks S st \<Longrightarrow> tracks (S \<union> set (concat (map items ms))) (fold member_step ms st)"
proof (induction ms arbitrary: S st)
  case Nil
  then show ?case by simp
next
  case (Cons m ms)
  have "tracks (S \<union> set (items m) \<union> set (concat (map items ms)))
          (fold member_step ms (member_step m st))"
    using Cons.IH [OF member_step_tracks [OF Cons.prems]] .
  then show ?case by (simp add: Un_assoc)
qed

lemma collect_acceptances_tracks:
  "tracks (set (concat (map items ms))) (collect_acceptances ms)"
proof -
  have "tracks {} ([], \<lambda>nrm. {})"
    by (simp add: tracks_def well_formed_def)
  then show ?thesis
    using fold_member_step_tracks [of "{}" "([], \<lambda>nrm. {})" ms]
    by (simp add: collect_acceptances_def)
qed

lemma fold_group_step_filter:
  "fold (group_step excl acc) n2o g =
   fold (group_step excl acc) (filter (\<lambda>e. \<not> list_ex (items_equal (snd e)) excl) n2o) g"
proof (induction n2o arbitrary: g)
  case Nil
  then show ?case by simp
next
  case (Cons e n2o)
  show ?case
  proof (cases "list_ex (items_equal (snd e)) excl")
    case True
    then have "group_step excl acc e g = g"
      by (cases e) (simp add: group_step_def)
    then show ?thesis using True Cons.IH by simp
  next
    case False
    then show ?thesis using Cons.IH by simp
  qed
qed

lemma filter_single:
  assumes "distinct (map fst xs)" "e \<in> set xs" "\<And>x. x \<in> set xs \<Longrightarrow> P x \<longleftrightarrow> x = e"
  shows "filter P xs = [e]"
  using assms
proof (induction xs)
  case Nil
  then show ?case by simp
next
  case (Cons x xs)
  show ?case
  proof (cases "x = e")
    case True
    have "e \<notin> set xs"
      using Cons.prems(1) True by (auto simp: image_iff)
    then have "filter P xs = []"
      using Cons.prems(3) by (auto simp: filter_empty_conv)
    then show ?thesis
      using True Cons.prems(3) [of x] by simp
  next
    case False
    then have "filter P xs = [e]"
      using Cons.prems by (intro Cons.IH) auto
    then show ?thesis
      using False Cons.prems(3) [of x] by simp
  qed
qed

lemma two_item_groups:
  assumes t: "tracks {A, B} (n2o, acc)"
    and ne: "normalize_item A \<noteq> normalize_item B"
    and exA: "list_ex (items_equal A) excl"
    and exB: "\<not> list_ex (items_equal B) excl"
  shows "fold (group_step excl acc) n2o [] = [(acc (normalize_item B), [B])]"
proof -
  have wf: "distinct (map fst n2o)"
    and en: "\<And>e. e \<in> set n2o \<Longrightarrow> fst e = normalize_item (snd e) \<and> acc (fst e) \<noteq> {}"
    and keys: "fst ` set n2o = {normalize_item A, normalize_item B}"
    and vals: "snd ` set n2o \<subseteq> {A, B}"
    using t unfolding tracks_def well_formed_def list_all_iff fst_conv snd_conv image_insert image_empty
    by blast+
  have vs: "snd e = A \<or> snd e = B" if "e \<in> set n2o" for e
    using vals that by auto
  obtain e where e: "e \<in> set n2o" "fst e = normalize_item B"
    using keys by (metis (no_types, lifting) image_iff insertCI)
  have eB: "e = (normalize_item B, B)"
    using e en [OF e(1)] vs [OF e(1)] ne by (metis prod.collapse)
  have sel: "(\<not> list_ex (items_equal (snd x)) excl) \<longleftrightarrow> x = (normalize_item B, B)"
    if "x \<in> set n2o" for x
    using en [OF that] vs [OF that] exA exB by (cases x) auto
  have "filter (\<lambda>e. \<not> list_ex (items_equal (snd e)) excl) n2o = [(normalize_item B, B)]"
    using wf e(1) sel unfolding eB by (rule filter_single)
  moreover have "acc (normalize_item B) \<noteq> {}"
    using en [OF e(1)] e(2) by metis
  ultimately show ?thesis
    using exB by (simp add: fold_group_step_filter [of excl acc n2o] group_step_def)
qed

subsection \<open>Roll next\<close>

lemma get_excluded_items_set:
  "get_excluded_items (set_excluded_items db sid excl) sid =
     (if get_session db sid = None then [] else excl)"
  by (cases "get_session db sid")
     (auto simp: get_excluded_items_def set_excluded_items_def get_session_update_sessions
        dest: get_session_Some)

lemma get_excluded_items_exclude:
  "get_session db sid \<noteq> None \<Longrightarrow>
   get_excluded_items (exclude_item db sid cur) sid =
     (if list_ex (items_equal cur) (get_excluded_items db sid) then get_excluded_items db sid
      else get_excluded_items db sid @ [cur])"
  by (auto simp: exclude_item_def Let_def get_excluded_items_set)

lemma excluded_after_exclude:
  "get_session db sid \<noteq> None \<Longrightarrow>
   list_ex (items_equal cur) (get_excluded_items (exclude_item db sid cur) sid)"
  using get_excluded_items_exclude [of db sid cur] by (auto simp: items_equal_def)

lemma exclude_item_idem:
  assumes "get_session db sid \<noteq> None"
  shows "exclude_item (exclude_item db sid cur) sid cur = exclude_item db sid cur"
  using excluded_after_exclude [OF assms, of cur]
  by (simp add: exclude_item_def [of "exclude_item db sid cur"] Let_def)

lemma get_active_members_exclude [simp]:
  "get_active_members (exclude_item db sid cur) sid' = get_active_members db sid'"
  by (simp add: exclude_item_def Let_def set_excluded_items_def)

lemma group_items_cong:
  assumes "get_active_members db' sid = get_active_members db sid"
    and "get_excluded_items db' sid = get_excluded_items db sid"
  shows "group_items_by_acceptance db' sid = group_items_by_acceptance db sid"
  by (simp add: group_items_by_acceptance_def assms)

lemma select_item_avoids_excluded:
  assumes "group_items_by_acceptance db sid \<noteq> []"
    and "list_ex (items_equal cur) (get_excluded_items db sid)"
  shows "\<exists>x. select_item db sid r1 r2 = (Inr (Some x), db) \<and> \<not> items_equal x cur"
proof -
  from select_item_nonempty [OF assms(1), of r1 r2]
  obtain x where x: "select_item db sid r1 r2 = (Inr (Some x), db)"
    and xin: "x \<in> set (concat (map snd (group_items_by_acceptance db sid)))"
    by (elim exE conjE)
  have "\<not> list_ex (items_equal x) (get_excluded_items db sid)"
    using group_items_not_excluded [OF xin] .
  then have "\<not> items_equal x cur"
    using assms(2) by (auto simp: list_ex_iff items_equal_def)
  then show ?thesis using x by blast
qed

lemma two_item_pool:
  assumes pool: "set (concat (map items (get_active_members db sid))) = {A, B}"
    and ne: "normalize_item A \<noteq> normalize_item B"
    and exA: "list_ex (items_equal A) (get_excluded_items db sid)"
    and exB: "\<not> list_ex (items_equal B) (get_excluded_items db sid)"
  shows "select_item db sid r1 r2 = (Inr (Some B), db)"
proof -
  obtain n2o acc where c: "collect_acceptances (get_active_members db sid) = (n2o, acc)"
    by (cases "collect_acceptances (get_active_members db sid)")
  have "tracks {A, B} (n2o, acc)"
    using collect_acceptances_tracks [of "get_active_members db sid"] unfolding pool c .
  then have g: "group_items_by_acceptance db sid = [(acc (normalize_item B), [B])]"
    using two_item_groups [OF _ ne exA exB] by (simp add: group_items_by_acceptance_def c)
  then have "group_items_by_acceptance db sid \<noteq> []"
    by simp
  from select_item_nonempty [OF this, of r1 r2]
  show ?thesis
    by (simp add: g)
qed

lemma group_items_registered:
  "set (concat (map snd (group_items_by_acceptance db sid)))
     \<subseteq> snd ` set (fst (collect_acceptances (get_active_members db sid)))"
proof -
  obtain n2o acc where c: "collect_acceptances (get_active_members db sid) = (n2o, acc)"
    by (cases "collect_acceptances (get_active_members db sid)")
  show ?thesis
    using fold_group_step_items [of "get_excluded_items db sid" acc n2o "[]"]
    by (auto simp: group_items_by_acceptance_def c)
qed

lemma group_items_from_pool:
  "set (concat (map snd (group_items_by_acceptance db sid)))
     \<subseteq> set (concat (map items (get_active_members db sid)))"
proof -
  have "snd ` set (fst (collect_acceptances (get_active_members db sid)))
          \<subseteq> set (concat (map items (get_active_members db sid)))"
    using collect_acceptances_tracks [of "get_active_members db sid"]
    by (simp only: tracks_def)
  then show ?thesis
    using group_items_registered [of db sid] by (rule order_trans [rotated])
qed

lemma select_item_recycles:
  assumes "group_items_by_acceptance db sid = []"
  shows "get_excluded_items (snd (select_item db sid r1 r2)) sid = []"
  using assms
  by (simp add: select_item_def Let_def clear_excluded_items_def get_excluded_items_set)

lemma two_item_pool_or_recycled:
  assumes pool: "set (concat (map items (get_active_members db sid))) = {A, B}"
    and ne: "normalize_item A \<noteq> normalize_item B"
    and exA: "list_ex (items_equal A) (get_excluded_items db sid)"
  shows "get_excluded_items (snd (select_item db sid r1 r2)) sid = []
         \<or> (\<forall>r3 r4. select_item db sid r3 r4 = (Inr (Some B), db))"
proof (cases "group_items_by_acceptance db sid = []")
  case True
  then show ?thesis
    using select_item_recycles by blast
next
  case False
  from select_item_nonempty [OF this, of r1 r2]
  obtain x where x: "x \<in> set (concat (map snd (group_items_by_acceptance db sid)))"
    by (elim exE conjE)
  have nx: "\<not> list_ex (items_equal x) (get_excluded_items db sid)"
    using group_items_not_excluded [OF x] .
  have "x \<in> {A, B}"
    using x group_items_from_pool [of db sid] unfolding pool by (rule subsetD [rotated])
  then have "x = B"
    using nx exA by blast
  then have "\<not> list_ex (items_equal B) (get_excluded_items db sid)"
    using nx by simp
  then show ?thesis
    using two_item_pool [OF pool ne exA] by blast
qed

text \<open>
  C5. For an existing session, \<open>roll_next\<close> is \<open>select_item\<close> on the store in which the
  current item has been appended to the excluded items exactly when no excluded item
  equals it after normalization; excluding the same item again changes nothing. While this
  store still has a group to choose from, every \<open>select_item\<close> on it (the one of
  \<open>roll_next\<close> and any later one) returns an item different from the excluded one and leaves
  the store as it is. For a pool of the two items \<open>A\<close> and \<open>B\<close> of distinct keys where
  \<open>B\<close> is not excluded, \<open>roll_next\<close> with \<open>A\<close> returns \<open>B\<close>, and so does every later
  \<open>select_item\<close>, whatever the random draws. Without the condition on \<open>B\<close>: after
  \<open>roll_next\<close> with \<open>A\<close> either the excluded items are empty again (the pool was
  recycled) or \<open>roll_next\<close> returned \<open>B\<close> and every later \<open>select_item\<close> returns \<open>B\<close>.
\<close>

theorem roll_next_excludes_current:
  assumes "get_session db sid \<noteq> None"
  shows "roll_next db sid cur r1 r2 = select_item (exclude_item db sid cur) sid r1 r2
    \<and> get_excluded_items (exclude_item db sid cur) sid =
        (if list_ex (items_equal cur) (get_excluded_items db sid)
         then get_excluded_items db sid
         else get_excluded_items db sid @ [cur])
    \<and> exclude_item (exclude_item db sid cur) sid cur = exclude_item db sid cur
    \<and> (group_items_by_acceptance (exclude_item db sid cur) sid \<noteq> [] \<longrightarrow>
         (\<forall>r3 r4. \<exists>x. select_item (exclude_item db sid cur) sid r3 r4
                          = (Inr (Some x), exclude_item db sid cur)
                        \<and> \<not> items_equal x cur))
    \<and> (set (concat (map items (get_active_members db sid))) = {A, B}
         \<and> normalize_item A \<noteq> normalize_item B
         \<and> \<not> list_ex (items_equal B) (get_excluded_items db sid) \<longrightarrow>
         roll_next db sid A r1 r2 = (Inr (Some B), exclude_item db sid A)
         \<and> (\<forall>r3 r4. select_item (exclude_item db sid A) sid r3 r4
                       = (Inr (Some B), exclude_item db sid A)))
    \<and> (set (concat (map items (get_active_members db sid))) = {A, B}
         \<and> normalize_item A \<noteq> normalize_item B \<longrightarrow>
         get_excluded_items (snd (roll_next db sid A r1 r2)) sid = []
         \<or> (\<forall>r3 r4. select_item (exclude_item db sid A) sid r3 r4
                       = (Inr (Some B), exclude_item db sid A)))"
proof -
  have rec: "get_excluded_items (snd (roll_next db sid A r1 r2)) sid = []
         \<or> (\<forall>r3 r4. select_item (exclude_item db sid A) sid r3 r4
                       = (Inr (Some B), exclude_item db sid A))"
    if "set (concat (map items (get_active_members db sid))) = {A, B}"
      and "normalize_item A \<noteq> normalize_item B"
    using two_item_pool_or_recycled [of "exclude_item db sid A" sid A B r1 r2] that
      excluded_after_exclude [OF assms, of A]
    by (simp add: roll_next_def)
  have avoid: "\<exists>x. select_item (exclude_item db sid cur) sid r3 r4
                          = (Inr (Some x), exclude_item db sid cur)
                        \<and> \<not> items_equal x cur"
    if "group_items_by_acceptance (exclude_item db sid cur) sid \<noteq> []" for r3 r4
    using select_item_avoids_excluded [OF that excluded_after_exclude [OF assms]] .
  have two: "select_item (exclude_item db sid A) sid r3 r4 = (Inr (Some B), exclude_item db sid A)"
    if pool: "set (concat (map items (get_active_members db sid))) = {A, B}"
      and ne: "normalize_item A \<noteq> normalize_item B"
      and exB: "\<not> list_ex (items_equal B) (get_excluded_items db sid)" for r3 r4
  proof -
    have "\<not> list_ex (items_equal B) (get_excluded_items (exclude_item db sid A) sid)"
      using exB ne assms by (auto simp: get_excluded_items_exclude items_equal_def)
    then show ?thesis
      using two_item_pool [of "exclude_item db sid A" sid A B r3 r4] pool ne
        excluded_after_exclude [OF assms, of A]
      by simp
  qed
  have first: "roll_next db sid cur r1 r2 = select_item (exclude_item db sid cur) sid r1 r2"
    "roll_next db sid A r1 r2 = select_item (exclude_item db sid A) sid r1 r2"
    by (simp_all add: roll_next_def)
  show ?thesis
    unfolding first
    using avoid two rec [unfolded first]
    by (simp add: get_excluded_items_exclude [OF assms] exclude_item_idem [OF assms])
qed

theorem roll_next_excludes_current_witness:
  "roll_next tea_AB (str ''S'') (str ''Tea'') 10000 10000
     = (Inr (Some (str ''Coffee'')), exclude_item tea_AB (str ''S'') (str ''Tea''))
   \<and> get_excluded_items (exclude_item tea_AB (str ''S'') (str ''Tea'')) (str ''S'')
       = [str ''Tea'']
   \<and> select_item (exclude_item tea_AB (str ''S'') (str ''Tea'')) (str ''S'') 54321 12345
       = (Inr (Some (str ''Coffee'')), exclude_item tea_AB (str ''S'') (str ''Tea''))"
proof -
  have s: "get_session tea_AB (str ''S'') \<noteq> None"
    by (simp add: store_defs fixture_defs)
  have p: "set (concat (map items (get_active_members tea_AB (str ''S''))))
           = {str ''Tea'', str ''Coffee''}"
    by (simp add: store_defs fixture_defs)
  have n: "normalize_item (str ''Tea'') \<noteq> normalize_item (str ''Coffee'')"
    by (simp add: normalizer_eval str_def)
  have e: "get_excluded_items tea_AB (str ''S'') = []"
    by (simp add: store_defs fixture_defs)
  show ?thesis
    using roll_next_excludes_current [OF s, of "str ''Tea''" 10000 10000 "str ''Tea''" "str ''Coffee''"]
      p n e
    by simp
qed


end
